theory Spec2Isabelle
  imports Complex_Main "HOL-Library.Multiset" "HOL-Library.List_Lexorder"
    "HOL-Library.Char_ord" "HOL-Library.Product_Lexorder"
begin

section \<open>Numbers and errors\<close>

text \<open>
  The notebook \<^verbatim>\<open>identify_potential_customers.ipynb\<close> computes on pandas data frames
  and numpy arrays of 64-bit floats. It is embedded twice. The sections on the three
  approaches compute in exact arithmetic, a float being a \<^typ>\<open>real\<close>: this is the
  arithmetic of the statements about exact distances, about the order of the rows and
  about what is left unchanged. There a division by zero, where numpy stores \<^verbatim>\<open>nan\<close> or
  \<^verbatim>\<open>inf\<close> and goes on, has no value and stops with \<open>NonFinite\<close>. The section on double
  precision embeds the scaling, the distance matrix and the matching with rounding,
  infinities and \<^verbatim>\<open>nan\<close>, as numpy computes them. Every exception the notebook's own
  statements can raise is a constructor of \<open>error\<close>.
\<close>

datatype error =
    KeyError string
  | ValueError
  | IndexError
  | TypeError
  | NonFinite
  | SchemaError
  | DegenerateInputError

section \<open>Approach 3: feature tables\<close>

text \<open>
  \<^verbatim>\<open>members_df\<close> and \<^verbatim>\<open>non_members_df\<close> have \<^verbatim>\<open>UnitID\<close> as first column and the
  features in the columns after it (\<^verbatim>\<open>iloc[:,1:]\<close>). A frame knows its number of
  feature columns also when it has no row.
\<close>

record inst_row =
  UnitID :: int
  feats :: "real list"

record frame =
  width :: nat
  body :: "inst_row list"

definition rect :: "frame \<Rightarrow> bool" where
  "rect df = list_all (\<lambda>r. length (feats r) = width df) (body df)"

subsection \<open>Scaling each feature\<close>

text \<open>\<^verbatim>\<open>norm(members_df.iloc[:,1:], axis=0)\<close>: one L2 norm for each feature column.\<close>

definition col_norm :: "frame \<Rightarrow> nat \<Rightarrow> real" where
  "col_norm df k = sqrt (\<Sum>r\<leftarrow>body df. (feats r ! k)\<^sup>2)"

definition norm_axis0 :: "frame \<Rightarrow> real list" where
  "norm_axis0 df = map (col_norm df) [0..<width df]"

text \<open>
  \<^verbatim>\<open>df.iloc[:,1:] /= ns\<close>: the array \<open>ns\<close> is broadcast along the rows; a length
  other than the number of feature columns raises \<^verbatim>\<open>ValueError\<close>. The first column
  and the order of the rows are not touched.
\<close>

definition scale_row :: "real list \<Rightarrow> inst_row \<Rightarrow> inst_row" where
  "scale_row ns r = r\<lparr>feats := map2 (/) (feats r) ns\<rparr>"

definition idiv_features :: "frame \<Rightarrow> real list \<Rightarrow> error + frame" where
  "idiv_features df ns =
     (if width df \<noteq> length ns then Inl ValueError
      else if body df \<noteq> [] \<and> 0 \<in> set ns then Inl NonFinite
      else Inr (df\<lparr>body := map (scale_row ns) (body df)\<rparr>))"

definition scale_each_feature :: "frame \<Rightarrow> frame \<Rightarrow> error + (frame \<times> frame)" where
  "scale_each_feature members_df non_members_df =
     (let members_norm = norm_axis0 members_df in
      case idiv_features members_df members_norm of
        Inl e \<Rightarrow> Inl e
      | Inr members_df' \<Rightarrow>
          (case idiv_features non_members_df members_norm of
             Inl e \<Rightarrow> Inl e
           | Inr non_members_df' \<Rightarrow> Inr (members_df', non_members_df')))"

subsection \<open>The distance matrix\<close>

text \<open>A numpy matrix is the list of its rows. \<open>np_array\<close> is \<^verbatim>\<open>np.array(df.iloc[:,1:])\<close>.\<close>

type_synonym matrix = "real list list"

definition np_array :: "frame \<Rightarrow> matrix" where
  "np_array df = map feats (body df)"

definition ones :: "nat \<Rightarrow> matrix" where
  "ones k = replicate k [1]"

text \<open>\<^verbatim>\<open>norm(X,axis=1).reshape((n,1))**2\<close>: a column of squared row norms.\<close>

definition norm_axis1 :: "real list \<Rightarrow> real" where
  "norm_axis1 x = sqrt (\<Sum>a\<leftarrow>x. a\<^sup>2)"

definition sq_norms :: "matrix \<Rightarrow> matrix" where
  "sq_norms A = map (\<lambda>x. [(norm_axis1 x)\<^sup>2]) A"

text \<open>\<^verbatim>\<open>A.dot(np.transpose(B))\<close>: entry \<open>(i, j)\<close> is the inner product of row \<open>i\<close> of
  \<open>A\<close> and row \<open>j\<close> of \<open>B\<close>. numpy raises \<^verbatim>\<open>ValueError\<close> when the rows of \<open>A\<close> and \<open>B\<close>
  differ in length; the two arrays of the notebook come out of the scaling step, which
  has checked that both tables have the customers' number of feature columns
  (\<open>has_shape\<close> below states the shape of an array).\<close>

definition inner_prod :: "real list \<Rightarrow> real list \<Rightarrow> real" where
  "inner_prod x y = (\<Sum>(a, b)\<leftarrow>zip x y. a * b)"

definition dot_transpose :: "matrix \<Rightarrow> matrix \<Rightarrow> matrix" where
  "dot_transpose A B = map (\<lambda>a. map (\<lambda>b. inner_prod a b) B) A"

definition mat_add :: "matrix \<Rightarrow> matrix \<Rightarrow> matrix" where
  "mat_add A B = map2 (map2 (+)) A B"

definition mat_sub :: "matrix \<Rightarrow> matrix \<Rightarrow> matrix" where
  "mat_sub A B = map2 (map2 (-)) A B"

definition scalar_mult :: "real \<Rightarrow> matrix \<Rightarrow> matrix" where
  "scalar_mult c A = map (map ((*) c)) A"

text \<open>
  \<^verbatim>\<open>M = normX.dot(np.transpose(onesm)) - 2*X.dot(np.transpose(Y)) + onesn.dot(np.transpose(normY))\<close>
\<close>

definition distance_matrix :: "matrix \<Rightarrow> matrix \<Rightarrow> matrix" where
  "distance_matrix X Y =
     (let n = length X; m = length Y;
          onesn = ones n; onesm = ones m;
          normX = sq_norms X; normY = sq_norms Y
      in mat_add
           (mat_sub (dot_transpose normX onesm) (scalar_mult 2 (dot_transpose X Y)))
           (dot_transpose onesn normY))"

text \<open>The direct computation the shortcut is compared with: the sum of the squared
  differences of the coordinates.\<close>

definition sq_euclidean :: "real list \<Rightarrow> real list \<Rightarrow> real" where
  "sq_euclidean x y = (\<Sum>(a, b)\<leftarrow>zip x y. (a - b)\<^sup>2)"

definition has_shape :: "matrix \<Rightarrow> nat \<Rightarrow> nat \<Rightarrow> bool" where
  "has_shape A n p = (length A = n \<and> list_all (\<lambda>x. length x = p) A)"

subsection \<open>Matching\<close>

text \<open>
  \<^verbatim>\<open>
  for j in trange(m):
      vec=M[:,j]
      i=np.argwhere(vec == np.min(vec))
      match_index.append(i[0][0])
      matched_euclidean.append(np.min(vec))
  \<close>
  \<^verbatim>\<open>np.min\<close> of an empty array raises \<^verbatim>\<open>ValueError\<close>; \<^verbatim>\<open>i[0][0]\<close> on an empty
  \<^verbatim>\<open>argwhere\<close> result raises \<^verbatim>\<open>IndexError\<close>.
\<close>

definition column :: "matrix \<Rightarrow> nat \<Rightarrow> real list" where
  "column M j = map (\<lambda>r. r ! j) M"

definition np_min :: "real list \<Rightarrow> error + real" where
  "np_min vec = (case vec of [] \<Rightarrow> Inl ValueError | x # xs \<Rightarrow> Inr (fold min xs x))"

definition argwhere_eq :: "real list \<Rightarrow> real \<Rightarrow> nat list" where
  "argwhere_eq vec v = filter (\<lambda>i. vec ! i = v) [0..<length vec]"

definition match_column :: "matrix \<Rightarrow> nat \<Rightarrow> error + (nat \<times> real)" where
  "match_column M j =
     (let vec = column M j in
      case np_min vec of
        Inl e \<Rightarrow> Inl e
      | Inr lo \<Rightarrow>
          (case argwhere_eq vec lo of
             [] \<Rightarrow> Inl IndexError
           | i # _ \<Rightarrow> Inr (i, lo)))"

fun match_loop :: "matrix \<Rightarrow> nat list \<Rightarrow> nat list \<times> real list \<Rightarrow> error + (nat list \<times> real list)" where
  "match_loop M [] acc = Inr acc"
| "match_loop M (j # js) (match_index, matched_euclidean) =
     (case match_column M j of
        Inl e \<Rightarrow> Inl e
      | Inr (i, d) \<Rightarrow> match_loop M js (match_index @ [i], matched_euclidean @ [d]))"

definition matching :: "nat \<Rightarrow> matrix \<Rightarrow> error + (nat list \<times> real list)" where
  "matching m M = match_loop M [0..<m] ([], [])"

subsection \<open>Attaching the match to the non-customer rows\<close>

record dist_row = inst_row +
  distance_with_closest_members :: real

record matched_row = dist_row +
  unitid_of_most_similar_member :: "int option"

text \<open>
  \<^verbatim>\<open>non_members_df['distance_with_closest_members'] = matched_euclidean\<close>: a Python list
  is assigned by position and must have one value for each row.
\<close>

definition set_distance :: "inst_row list \<Rightarrow> real list \<Rightarrow> error + dist_row list" where
  "set_distance rs ds =
     (if length ds \<noteq> length rs then Inl ValueError
      else Inr (map2 (\<lambda>r d. \<lparr>UnitID = UnitID r, feats = feats r,
                               distance_with_closest_members = d\<rparr>) rs ds))"

text \<open>\<^verbatim>\<open>members_df.iloc[match_index,:]["UnitID"]\<close>: a position beyond the last row raises
  \<^verbatim>\<open>IndexError\<close>.\<close>

definition iloc_UnitID :: "inst_row list \<Rightarrow> nat list \<Rightarrow> error + int list" where
  "iloc_UnitID rs ixs =
     (if list_all (\<lambda>i. i < length rs) ixs then Inr (map (\<lambda>i. UnitID (rs ! i)) ixs)
      else Inl IndexError)"

text \<open>
  After \<^verbatim>\<open>reset_index(drop = True)\<close> the series of identifiers is labelled \<open>0, 1, \<dots>\<close>, as
  the rows of \<^verbatim>\<open>non_members_df\<close> are; the assignment aligns on the labels, and a row
  whose label the series lacks gets no value (\<open>None\<close>).
\<close>

definition set_most_similar :: "dist_row list \<Rightarrow> int list \<Rightarrow> matched_row list" where
  "set_most_similar rs ids =
     map (\<lambda>j. \<lparr>UnitID = UnitID (rs ! j), feats = feats (rs ! j),
                distance_with_closest_members = distance_with_closest_members (rs ! j),
                unitid_of_most_similar_member = (if j < length ids then Some (ids ! j) else None)\<rparr>)
       [0..<length rs]"

definition match_non_members :: "frame \<Rightarrow> frame \<Rightarrow> error + matched_row list" where
  "match_non_members members_df non_members_df =
     (case scale_each_feature members_df non_members_df of
        Inl e \<Rightarrow> Inl e
      | Inr (mdf, ndf) \<Rightarrow>
          (let m = length (body ndf);
               M = distance_matrix (np_array mdf) (np_array ndf)
           in case matching m M of
                Inl e \<Rightarrow> Inl e
              | Inr (match_index, matched_euclidean) \<Rightarrow>
                  (case set_distance (body ndf) matched_euclidean of
                     Inl e \<Rightarrow> Inl e
                   | Inr rs \<Rightarrow>
                       (case iloc_UnitID (body mdf) match_index of
                          Inl e \<Rightarrow> Inl e
                        | Inr ids \<Rightarrow> Inr (set_most_similar rs ids)))))"

subsection \<open>Selecting the closest non-customers\<close>

text \<open>
  \<^verbatim>\<open>non_members_df.sort_values('distance_with_closest_members', ascending=True).head(n)\<close>.
  pandas' default sort need not keep the order of rows with equal keys; \<open>sort_key\<close>
  keeps it. Nothing below depends on the order of equal keys.
\<close>

definition sort_values_ascending :: "('a \<Rightarrow> real) \<Rightarrow> 'a list \<Rightarrow> 'a list" where
  "sort_values_ascending by rs = sort_key by rs"

definition head :: "nat \<Rightarrow> 'a list \<Rightarrow> 'a list" where
  "head n rs = take n rs"

definition potential_members_by_distance :: "nat \<Rightarrow> matched_row list \<Rightarrow> matched_row list" where
  "potential_members_by_distance n rs =
     head n (sort_values_ascending distance_with_closest_members rs)"

definition approach3 :: "nat \<Rightarrow> frame \<Rightarrow> frame \<Rightarrow> error + matched_row list" where
  "approach3 n members_df non_members_df =
     (case match_non_members members_df non_members_df of
        Inl e \<Rightarrow> Inl e
      | Inr rs \<Rightarrow> Inr (potential_members_by_distance n rs))"

section \<open>Approach 2: level of market penetration\<close>

text \<open>
  The merged table has one row for each institution, with its state and the label
  \<^verbatim>\<open>'member'\<close> or \<^verbatim>\<open>'non_member'\<close> in the column \<^verbatim>\<open>membership_status\<close>.
\<close>

datatype membership_status = member | non_member

definition label :: "membership_status \<Rightarrow> string" where
  "label c = (case c of member \<Rightarrow> ''member'' | non_member \<Rightarrow> ''non_member'')"

record status_row =
  state :: string
  status :: membership_status

text \<open>
  \<^verbatim>\<open>groupby(['state','membership_status'], as_index = False).agg({'UnitID':'count'})\<close>:
  one row for each pair of state and label that occurs, in the order of the keys, with
  the number of rows of the pair. The \<^verbatim>\<open>sort_values(by = 'state')\<close> that follows only
  reorders these rows, and the pivot does not depend on their order.
\<close>

definition count_rows :: "status_row list \<Rightarrow> string \<Rightarrow> membership_status \<Rightarrow> int" where
  "count_rows tbl s c = int (length (filter (\<lambda>r. state r = s \<and> status r = c) tbl))"

definition groupby_count :: "status_row list \<Rightarrow> (string \<times> membership_status \<times> int) list" where
  "groupby_count tbl =
     concat (map (\<lambda>s. map (\<lambda>c. (s, c, count_rows tbl s c))
                       (filter (\<lambda>c. (s, c) \<in> set (map (\<lambda>r. (state r, status r)) tbl))
                               [member, non_member]))
              (sort (remdups (map state tbl))))"

text \<open>
  \<^verbatim>\<open>pivot_table('UnitID', index='state', columns='membership_status', fill_value=0, aggfunc='sum')\<close>:
  one row for each state and one column for each label that occurs in the grouped
  table; a cell is the sum of the counts of its pair, and \<^verbatim>\<open>fill_value\<close> where
  the pair has no row.
\<close>

record pivot =
  index :: "string list"
  cols :: "(membership_status \<times> int list) list"

definition pivot_cell :: "(string \<times> membership_status \<times> int) list \<Rightarrow> int \<Rightarrow> string \<Rightarrow> membership_status \<Rightarrow> int" where
  "pivot_cell g fill_value s c =
     (case map (\<lambda>(_, _, v). v) (filter (\<lambda>(s', c', _). s' = s \<and> c' = c) g) of
        [] \<Rightarrow> fill_value
      | vs \<Rightarrow> sum_list vs)"

definition pivot_table :: "(string \<times> membership_status \<times> int) list \<Rightarrow> int \<Rightarrow> pivot" where
  "pivot_table g fill_value =
     (let idx = sort (remdups (map fst g));
          labels = filter (\<lambda>c. c \<in> set (map (fst \<circ> snd) g)) [member, non_member]
      in \<lparr>index = idx,
          cols = map (\<lambda>c. (c, map (\<lambda>s. pivot_cell g fill_value s c) idx)) labels\<rparr>)"

text \<open>\<^verbatim>\<open>market_df['member']\<close>: a label that is not a column raises \<^verbatim>\<open>KeyError\<close>.\<close>

definition getitem :: "pivot \<Rightarrow> membership_status \<Rightarrow> error + int list" where
  "getitem df c = (case map_of (cols df) c of None \<Rightarrow> Inl (KeyError (label c)) | Some vs \<Rightarrow> Inr vs)"

record region =
  region_state :: string
  member_count :: int
  non_member_count :: int
  total :: int
  market_penetration_score :: real

text \<open>
  \<^verbatim>\<open>
  market_df['total'] = market_df['member'] + market_df['non_member']
  market_df['market_penetration_score'] = market_df['member']/market_df['total']
  \<close>
  The division of two integer columns is the true division; where a total is \<open>0\<close> pandas
  stores \<^verbatim>\<open>nan\<close> or \<^verbatim>\<open>inf\<close>.
\<close>

definition market_penetration :: "status_row list \<Rightarrow> error + region list" where
  "market_penetration tbl =
     (let market_df = pivot_table (groupby_count tbl) 0 in
      case getitem market_df member of
        Inl e \<Rightarrow> Inl e
      | Inr mem \<Rightarrow>
          (case getitem market_df non_member of
             Inl e \<Rightarrow> Inl e
           | Inr non \<Rightarrow>
               (let tot = map2 (+) mem non in
                if 0 \<in> set tot then Inl NonFinite
                else
                  (let score = map2 (\<lambda>a t. real_of_int a / real_of_int t) mem tot in
                   Inr (map (\<lambda>k. \<lparr>region_state = index market_df ! k,
                                   member_count = mem ! k,
                                   non_member_count = non ! k,
                                   total = tot ! k,
                                   market_penetration_score = score ! k\<rparr>)
                          [0..<length (index market_df)])))))"

section \<open>Approach 1: need scores\<close>

text \<open>
  \<^verbatim>\<open>subset_df\<close> is a pandas data frame with named columns; a cell is a number or a text.
  A frame is the list of its column labels and the list of its rows.
\<close>

datatype cell = is_Num: Num (number: real) | Txt (letters: string)

record data_frame =
  columns :: "string list"
  records :: "cell list list"

text \<open>The positions of the columns that carry a label; pandas allows a label to occur more
  than once.\<close>

definition positions :: "string list \<Rightarrow> string \<Rightarrow> nat list" where
  "positions cs v = filter (\<lambda>i. cs ! i = v) [0..<length cs]"

text \<open>\<^verbatim>\<open>df[vars]\<close> with a list of labels: the columns of the labels, in the order of the
  list; a label that is not a column raises \<^verbatim>\<open>KeyError\<close>.\<close>

definition getitem_columns :: "data_frame \<Rightarrow> string list \<Rightarrow> error + data_frame" where
  "getitem_columns df vars =
     (case filter (\<lambda>v. v \<notin> set (columns df)) vars of
        v # _ \<Rightarrow> Inl (KeyError v)
      | [] \<Rightarrow>
          (let ps = concat (map (positions (columns df)) vars) in
           Inr \<lparr>columns = map (\<lambda>p. columns df ! p) ps,
                records = map (\<lambda>r. map (\<lambda>p. r ! p) ps) (records df)\<rparr>))"

text \<open>
  \<^verbatim>\<open>df.sort_values(by, ascending=False)\<close>. A label that is not a column raises
  \<^verbatim>\<open>KeyError\<close>, a label of several columns \<^verbatim>\<open>ValueError\<close>. Numbers are compared as
  numbers and texts as texts; a column that mixes them raises \<^verbatim>\<open>TypeError\<close>. For the
  descending order pandas reverses the rows, sorts them in ascending order and reverses
  the result.
\<close>

definition cell_key :: "cell \<Rightarrow> real \<times> string" where
  "cell_key c = (case c of Num x \<Rightarrow> (x, []) | Txt s \<Rightarrow> (0, s))"

definition sort_values_descending :: "string \<Rightarrow> data_frame \<Rightarrow> error + data_frame" where
  "sort_values_descending by df =
     (case positions (columns df) by of
        [] \<Rightarrow> Inl (KeyError by)
      | [k] \<Rightarrow>
          (if list_all (\<lambda>r. is_Num (r ! k)) (records df) \<or> list_all (\<lambda>r. \<not> is_Num (r ! k)) (records df)
           then Inr (df\<lparr>records := rev (sort_key (\<lambda>r. cell_key (r ! k)) (rev (records df)))\<rparr>)
           else Inl TypeError)
      | _ \<Rightarrow> Inl ValueError)"

definition head_frame :: "nat \<Rightarrow> data_frame \<Rightarrow> data_frame" where
  "head_frame n df = df\<lparr>records := head n (records df)\<rparr>"

text \<open>
  \<^verbatim>\<open>
  vars_to_keep = ['UnitID','Institution Name', 'City location of institution (HD2020)',
                  'State abbreviation (HD2020)', 'need_score']
  need_scores_df = subset_df[vars_to_keep]
  potential_members = need_scores_df.sort_values('need_score', ascending=False).head(n)
  \<close>
\<close>

definition vars_to_keep :: "string list" where
  "vars_to_keep =
     [''UnitID'', ''Institution Name'', ''City location of institution (HD2020)'',
      ''State abbreviation (HD2020)'', ''need_score'']"

definition potential_members_by_need :: "nat \<Rightarrow> data_frame \<Rightarrow> error + data_frame" where
  "potential_members_by_need n subset_df =
     (case getitem_columns subset_df vars_to_keep of
        Inl e \<Rightarrow> Inl e
      | Inr need_scores_df \<Rightarrow>
          (case sort_values_descending ''need_score'' need_scores_df of
             Inl e \<Rightarrow> Inl e
           | Inr sorted_df \<Rightarrow> Inr (head_frame n sorted_df)))"

text \<open>
  The columns the notebook works with and does not keep: the other columns of
  \<^verbatim>\<open>var_list\<close>, the proportions and diversity indices, and the standardized columns of
  \<^verbatim>\<open>standardized_dict\<close>.
\<close>

definition standardized_dict :: "(string \<times> string) list" where
  "standardized_dict =
     [(''diversity_gender'', ''scaled_diversity_gender''),
      (''diversity_race'', ''scaled_diversity_race''),
      (''Percent of full-time first-time undergraduates awarded any financial aid (SFA1920)'',
       ''scaled_financial_aid''),
      (''Undergraduate level programs or courses are offered via distance education (IC2020)'',
       ''scaled_distance_educ''),
      (''Grand total (EF2020  All students  Undergraduate total)'', ''scaled_total_ug'')]"

definition vars_flipped :: "string list" where
  "vars_flipped = [''scaled_diversity_gender'', ''scaled_diversity_race'']"

definition working_columns :: "string list" where
  "working_columns =
     [''ZIP code (HD2020)'',
      ''Total men (EF2020  All students  Undergraduate total)'',
      ''Total women (EF2020  All students  Undergraduate total)'',
      ''American Indian or Alaska Native total (EF2020A  All students  Undergraduate total)'',
      ''Asian total (EF2020A  All students  Undergraduate total)'',
      ''Black or African American total (EF2020A  All students  Undergraduate total)'',
      ''Hispanic total (EF2020A  All students  Undergraduate total)'',
      ''Native Hawaiian or Other Pacific Islander total (EF2020A  All students  Undergraduate total)'',
      ''White total (EF2020A  All students  Undergraduate total)'',
      ''p_men'', ''p_women'', ''p_native_american'', ''p_asian'', ''p_black'', ''p_hispanic'',
      ''p_hawaiian_pacific'', ''p_white'']
     @ map fst standardized_dict @ map snd standardized_dict"

subsection \<open>Computing the need scores\<close>

text \<open>
  Modelled from the spec: the notebook calls \<^verbatim>\<open>membership.compute_need_scores(subset_df,
  standardized_dict, vars_flipped)\<close>, and the module \<^verbatim>\<open>membership\<close> is not among the
  sources. The spec's Need Score Ranker: for each listed raw feature the z-score
  (subtract the mean, divide by the population standard deviation) over the
  non-customer pool; the sign of the features in the flip list is flipped; the need
  score is the row-wise sum. A feature of standard deviation \<open>0\<close> makes the
  standardization fail with \<open>DegenerateInputError\<close>; a listed column that the table lacks
  is a \<open>SchemaError\<close>. The numeric columns of the table are given by their labels.
\<close>

definition mean :: "real list \<Rightarrow> real" where
  "mean xs = sum_list xs / real (length xs)"

definition pstdev :: "real list \<Rightarrow> real" where
  "pstdev xs = sqrt ((\<Sum>x\<leftarrow>xs. (x - mean xs)\<^sup>2) / real (length xs))"

text \<open>Modelled from the spec: the z-score of one feature, which is missing with the module;
  it fails where the standard deviation is \<open>0\<close> instead of dividing by it.\<close>

definition zscore :: "real list \<Rightarrow> error + real list" where
  "zscore xs =
     (if pstdev xs = 0 then Inl DegenerateInputError
      else Inr (map (\<lambda>x. (x - mean xs) / pstdev xs) xs))"

text \<open>Modelled from the spec: the standardized columns of the listed features, in the order
  of the mapping, with the signs of the flip list flipped (missing with the module).\<close>

fun standardize :: "(string \<times> real list) list \<Rightarrow> (string \<times> string) list \<Rightarrow> string list
    \<Rightarrow> error + (string \<times> real list) list" where
  "standardize tbl [] flipped = Inr []"
| "standardize tbl ((raw, scaled) # rest) flipped =
     (case map_of tbl raw of
        None \<Rightarrow> Inl SchemaError
      | Some xs \<Rightarrow>
          (case zscore xs of
             Inl e \<Rightarrow> Inl e
           | Inr zs \<Rightarrow>
               (case standardize tbl rest flipped of
                  Inl e \<Rightarrow> Inl e
                | Inr others \<Rightarrow>
                    Inr ((scaled, if scaled \<in> set flipped then map uminus zs else zs) # others))))"

text \<open>Modelled from the spec: \<^verbatim>\<open>membership.compute_need_scores\<close>, missing with the module;
  the need score of a row is the sum of its standardized values.\<close>

definition compute_need_scores :: "nat \<Rightarrow> (string \<times> real list) list \<Rightarrow> (string \<times> string) list
    \<Rightarrow> string list \<Rightarrow> error + real list" where
  "compute_need_scores nrows tbl dict flipped =
     (case standardize tbl dict flipped of
        Inl e \<Rightarrow> Inl e
      | Inr scaled_cols \<Rightarrow>
          Inr (foldr (\<lambda>c acc. map2 (+) c acc) (map snd scaled_cols) (replicate nrows 0)))"

text \<open>Three non-customers whose first feature does not vary.\<close>

definition flat_features :: "(string \<times> real list) list" where
  "flat_features = [(''diversity_gender'', [2, 2, 2]), (''diversity_race'', [1, 2, 3])]"

definition two_features :: "(string \<times> string) list" where
  "two_features = take 2 standardized_dict"

section \<open>Approach 3 in double precision\<close>

text \<open>
  The definitions above compute with exact reals. The notebook computes with numpy's
  \<^verbatim>\<open>float64\<close>: every operation rounds its exact result to the nearest number of 53
  significant bits, ties to the even one, a division by zero gives an infinity or
  \<^verbatim>\<open>nan\<close>, and \<^verbatim>\<open>nan\<close> spreads through every operation and equals nothing. This section
  embeds the scaling, the distance matrix and the matching once more, over such numbers.
  A finite double is the rational it denotes. The range of the exponent is not bounded:
  overflow, subnormal numbers and the sign of zero are not modelled.
\<close>

datatype double = Fin rat | PInf | NInf | NaN

subsection \<open>Rounding\<close>

text \<open>The number of binary digits of a positive integer (Python's \<^verbatim>\<open>int.bit_length\<close>).\<close>

function bit_length :: "int \<Rightarrow> nat" where
  "bit_length n = (if n \<le> 0 then 0 else Suc (bit_length (n div 2)))"
  by pat_completeness auto
termination
  by (relation "measure nat") auto

declare bit_length.simps [simp del]

definition pow2 :: "int \<Rightarrow> rat" where
  "pow2 k = (if 0 \<le> k then 2 ^ nat k else 1 / 2 ^ nat (- k))"

text \<open>The exponent \<open>e\<close> of a rational \<open>q \<noteq> 0\<close>: \<open>2\<^sup>e \<le> |q| < 2\<^sup>e\<^sup>+\<^sup>1\<close>.\<close>

definition exponent :: "rat \<Rightarrow> int" where
  "exponent q =
     (let (p, d) = quotient_of \<bar>q\<bar>;
          k = int (bit_length p) - int (bit_length d)
      in if pow2 k \<le> \<bar>q\<bar> then k else k - 1)"

definition round_half_even :: "rat \<Rightarrow> int" where
  "round_half_even x =
     (let f = \<lfloor>x\<rfloor>; r = x - of_int f
      in if r < 1 / 2 then f else if 1 / 2 < r then f + 1 else if even f then f else f + 1)"

text \<open>The double nearest to a rational: its 53 leading bits, rounded.\<close>

definition rnd :: "rat \<Rightarrow> rat" where
  "rnd q = (if q = 0 then 0
            else (let e = exponent q - 52 in of_int (round_half_even (q / pow2 e)) * pow2 e))"

text \<open>The integer square root, bit by bit from the highest bit down.\<close>

fun isqrt_bits :: "nat \<Rightarrow> int \<Rightarrow> int \<Rightarrow> int" where
  "isqrt_bits 0 n r = r"
| "isqrt_bits (Suc k) n r =
     (let c = r + 2 ^ k in if c * c \<le> n then isqrt_bits k n c else isqrt_bits k n r)"

definition isqrt :: "int \<Rightarrow> int" where
  "isqrt n = isqrt_bits (bit_length n) n 0"

text \<open>The double nearest to the square root of a rational \<open>q \<ge> 0\<close>: the integer square root
  \<open>m\<close> of \<open>q\<close> scaled to 53 bits, or \<open>m + 1\<close> when \<open>q\<close> lies beyond the square of \<open>m + 1/2\<close>.\<close>

definition rnd_sqrt :: "rat \<Rightarrow> rat" where
  "rnd_sqrt q =
     (if q \<le> 0 then 0
      else (let e = exponent q div 2 - 52;
                t = q / pow2 (2 * e);
                m = isqrt \<lfloor>t\<rfloor>;
                h = (of_int m + 1 / 2) * (of_int m + 1 / 2);
                m' = (if t < h then m else if h < t then m + 1 else if even m then m else m + 1)
            in of_int m' * pow2 e))"

subsection \<open>Arithmetic\<close>

definition d_sign :: "bool \<Rightarrow> double" where
  "d_sign positive = (if positive then PInf else NInf)"

fun d_add :: "double \<Rightarrow> double \<Rightarrow> double" where
  "d_add (Fin x) (Fin y) = Fin (rnd (x + y))"
| "d_add NaN b = NaN"
| "d_add a NaN = NaN"
| "d_add PInf NInf = NaN"
| "d_add NInf PInf = NaN"
| "d_add PInf b = PInf"
| "d_add a PInf = PInf"
| "d_add NInf b = NInf"
| "d_add a NInf = NInf"

fun d_neg :: "double \<Rightarrow> double" where
  "d_neg (Fin x) = Fin (- x)"
| "d_neg PInf = NInf"
| "d_neg NInf = PInf"
| "d_neg NaN = NaN"

definition d_sub :: "double \<Rightarrow> double \<Rightarrow> double" where
  "d_sub a b = d_add a (d_neg b)"

fun d_mul :: "double \<Rightarrow> double \<Rightarrow> double" where
  "d_mul (Fin x) (Fin y) = Fin (rnd (x * y))"
| "d_mul NaN b = NaN"
| "d_mul a NaN = NaN"
| "d_mul (Fin x) PInf = (if x = 0 then NaN else d_sign (0 < x))"
| "d_mul (Fin x) NInf = (if x = 0 then NaN else d_sign (x < 0))"
| "d_mul PInf (Fin y) = (if y = 0 then NaN else d_sign (0 < y))"
| "d_mul NInf (Fin y) = (if y = 0 then NaN else d_sign (y < 0))"
| "d_mul PInf PInf = PInf"
| "d_mul NInf NInf = PInf"
| "d_mul PInf NInf = NInf"
| "d_mul NInf PInf = NInf"

fun d_div :: "double \<Rightarrow> double \<Rightarrow> double" where
  "d_div (Fin x) (Fin y) =
     (if y = 0 then (if x = 0 then NaN else d_sign (0 < x)) else Fin (rnd (x / y)))"
| "d_div NaN b = NaN"
| "d_div a NaN = NaN"
| "d_div (Fin x) b = Fin 0"
| "d_div PInf (Fin y) = d_sign (0 \<le> y)"
| "d_div NInf (Fin y) = d_sign (y < 0)"
| "d_div a b = NaN"

fun d_sqrt :: "double \<Rightarrow> double" where
  "d_sqrt (Fin x) = (if x < 0 then NaN else Fin (rnd_sqrt x))"
| "d_sqrt PInf = PInf"
| "d_sqrt a = NaN"

text \<open>\<^verbatim>\<open>==\<close> and \<^verbatim>\<open><\<close> on doubles: \<^verbatim>\<open>nan\<close> is not equal to anything and not below anything.\<close>

fun d_eq :: "double \<Rightarrow> double \<Rightarrow> bool" where
  "d_eq NaN b = False"
| "d_eq a NaN = False"
| "d_eq a b = (a = b)"

fun d_less :: "double \<Rightarrow> double \<Rightarrow> bool" where
  "d_less NaN b = False"
| "d_less a NaN = False"
| "d_less (Fin x) (Fin y) = (x < y)"
| "d_less a NInf = False"
| "d_less NInf b = True"
| "d_less PInf b = False"
| "d_less a PInf = True"

text \<open>The minimum of two doubles as \<^verbatim>\<open>np.min\<close> takes it: \<^verbatim>\<open>nan\<close> if one of them is.\<close>

definition d_minimum :: "double \<Rightarrow> double \<Rightarrow> double" where
  "d_minimum a b = (if a = NaN \<or> b = NaN then NaN else if d_less b a then b else a)"

text \<open>\<^verbatim>\<open>add.reduce\<close>: the sum of a list, each addition rounded, from the left. numpy may
  add a long row in pairs, and a BLAS may add the products of a dot product in another
  order or fuse the multiplication with the addition. The evaluations below are on rows
  of two numbers and on dot products whose products are exact, for which all these
  variants give the same double.\<close>

definition sum64 :: "double list \<Rightarrow> double" where
  "sum64 xs = foldl d_add (Fin 0) xs"

subsection \<open>Scaling, distance matrix and matching\<close>

record inst_row64 =
  UnitID64 :: int
  feats64 :: "double list"

record frame64 =
  width64 :: nat
  body64 :: "inst_row64 list"


text \<open>\<^verbatim>\<open>norm(members_df.iloc[:,1:], axis=0)\<close>: numpy squares the entries, adds them along the
  column and takes the square root.\<close>

definition col_norm64 :: "frame64 \<Rightarrow> nat \<Rightarrow> double" where
  "col_norm64 df k = d_sqrt (sum64 (map (\<lambda>r. d_mul (feats64 r ! k) (feats64 r ! k)) (body64 df)))"

definition norm64_axis0 :: "frame64 \<Rightarrow> double list" where
  "norm64_axis0 df = map (col_norm64 df) [0..<width64 df]"

definition scale_row64 :: "double list \<Rightarrow> inst_row64 \<Rightarrow> inst_row64" where
  "scale_row64 ns r = r\<lparr>feats64 := map2 d_div (feats64 r) ns\<rparr>"

text \<open>\<^verbatim>\<open>df.iloc[:,1:] /= ns\<close>: only a wrong number of divisors raises; a divisor \<open>0\<close> leaves
  an infinity or \<^verbatim>\<open>nan\<close> in the table.\<close>

definition idiv_features64 :: "frame64 \<Rightarrow> double list \<Rightarrow> error + frame64" where
  "idiv_features64 df ns =
     (if width64 df \<noteq> length ns then Inl ValueError
      else Inr (df\<lparr>body64 := map (scale_row64 ns) (body64 df)\<rparr>))"

definition scale_each_feature64 :: "frame64 \<Rightarrow> frame64 \<Rightarrow> error + (frame64 \<times> frame64)" where
  "scale_each_feature64 members_df non_members_df =
     (let members_norm = norm64_axis0 members_df in
      case idiv_features64 members_df members_norm of
        Inl e \<Rightarrow> Inl e
      | Inr members_df' \<Rightarrow>
          (case idiv_features64 non_members_df members_norm of
             Inl e \<Rightarrow> Inl e
           | Inr non_members_df' \<Rightarrow> Inr (members_df', non_members_df')))"

type_synonym matrix64 = "double list list"

definition np_array64 :: "frame64 \<Rightarrow> matrix64" where
  "np_array64 df = map feats64 (body64 df)"

definition ones64 :: "nat \<Rightarrow> matrix64" where
  "ones64 k = replicate k [Fin 1]"

text \<open>\<^verbatim>\<open>norm(X,axis=1).reshape((n,1))**2\<close>; numpy computes the power \<open>2\<close> as a product.\<close>

definition norm64_axis1 :: "double list \<Rightarrow> double" where
  "norm64_axis1 x = d_sqrt (sum64 (map (\<lambda>a. d_mul a a) x))"

definition sq_norms64 :: "matrix64 \<Rightarrow> matrix64" where
  "sq_norms64 A = map (\<lambda>x. [d_mul (norm64_axis1 x) (norm64_axis1 x)]) A"

definition inner_prod64 :: "double list \<Rightarrow> double list \<Rightarrow> double" where
  "inner_prod64 x y = sum64 (map2 d_mul x y)"

definition dot_transpose64 :: "matrix64 \<Rightarrow> matrix64 \<Rightarrow> matrix64" where
  "dot_transpose64 A B = map (\<lambda>a. map (\<lambda>b. inner_prod64 a b) B) A"

definition mat_add64 :: "matrix64 \<Rightarrow> matrix64 \<Rightarrow> matrix64" where
  "mat_add64 A B = map2 (map2 d_add) A B"

definition mat_sub64 :: "matrix64 \<Rightarrow> matrix64 \<Rightarrow> matrix64" where
  "mat_sub64 A B = map2 (map2 d_sub) A B"

definition scalar_mult64 :: "double \<Rightarrow> matrix64 \<Rightarrow> matrix64" where
  "scalar_mult64 c A = map (map (d_mul c)) A"

text \<open>
  \<^verbatim>\<open>M = normX.dot(np.transpose(onesm)) - 2*X.dot(np.transpose(Y)) + onesn.dot(np.transpose(normY))\<close>
\<close>

definition distance_matrix64 :: "matrix64 \<Rightarrow> matrix64 \<Rightarrow> matrix64" where
  "distance_matrix64 X Y =
     (let n = length X; m = length Y;
          onesn = ones64 n; onesm = ones64 m;
          normX = sq_norms64 X; normY = sq_norms64 Y
      in mat_add64
           (mat_sub64 (dot_transpose64 normX onesm) (scalar_mult64 (Fin 2) (dot_transpose64 X Y)))
           (dot_transpose64 onesn normY))"


text \<open>The matching loop. \<^verbatim>\<open>np.min\<close> of a column that holds \<^verbatim>\<open>nan\<close> is \<^verbatim>\<open>nan\<close>, no entry
  equals it, and \<^verbatim>\<open>i[0][0]\<close> raises \<^verbatim>\<open>IndexError\<close>.\<close>

definition column64 :: "matrix64 \<Rightarrow> nat \<Rightarrow> double list" where
  "column64 M j = map (\<lambda>r. r ! j) M"

definition np_min64 :: "double list \<Rightarrow> error + double" where
  "np_min64 vec = (case vec of [] \<Rightarrow> Inl ValueError | x # xs \<Rightarrow> Inr (fold (\<lambda>b a. d_minimum a b) xs x))"

definition argwhere_eq64 :: "double list \<Rightarrow> double \<Rightarrow> nat list" where
  "argwhere_eq64 vec v = filter (\<lambda>i. d_eq (vec ! i) v) [0..<length vec]"

definition match_column64 :: "matrix64 \<Rightarrow> nat \<Rightarrow> error + (nat \<times> double)" where
  "match_column64 M j =
     (let vec = column64 M j in
      case np_min64 vec of
        Inl e \<Rightarrow> Inl e
      | Inr lo \<Rightarrow>
          (case argwhere_eq64 vec lo of
             [] \<Rightarrow> Inl IndexError
           | i # _ \<Rightarrow> Inr (i, lo)))"

fun match_loop64 :: "matrix64 \<Rightarrow> nat list \<Rightarrow> nat list \<times> double list
    \<Rightarrow> error + (nat list \<times> double list)" where
  "match_loop64 M [] acc = Inr acc"
| "match_loop64 M (j # js) (match_index, matched_euclidean) =
     (case match_column64 M j of
        Inl e \<Rightarrow> Inl e
      | Inr (i, d) \<Rightarrow> match_loop64 M js (match_index @ [i], matched_euclidean @ [d]))"

definition matching64 :: "nat \<Rightarrow> matrix64 \<Rightarrow> error + (nat list \<times> double list)" where
  "matching64 m M = match_loop64 M [0..<m] ([], [])"

text \<open>The notebook from the scaling to the end of the matching loop.\<close>

definition scale_and_match64 :: "frame64 \<Rightarrow> frame64 \<Rightarrow> error + (nat list \<times> double list)" where
  "scale_and_match64 members_df non_members_df =
     (case scale_each_feature64 members_df non_members_df of
        Inl e \<Rightarrow> Inl e
      | Inr (mdf, ndf) \<Rightarrow>
          matching64 (length (body64 ndf)) (distance_matrix64 (np_array64 mdf) (np_array64 ndf)))"



text \<open>One customer whose second feature is \<open>0\<close>, and one non-customer.\<close>

definition flat_customer :: frame64 where
  "flat_customer = \<lparr>width64 = 2, body64 = [\<lparr>UnitID64 = 1, feats64 = [Fin 1, Fin 0]\<rparr>]\<rparr>"

definition one_prospect :: frame64 where
  "one_prospect = \<lparr>width64 = 2, body64 = [\<lparr>UnitID64 = 3, feats64 = [Fin (1/2), Fin (1/4)]\<rparr>]\<rparr>"

text \<open>\<open>first_minimum64 vec i lo\<close>: no entry of \<open>vec\<close> is below \<open>lo\<close>, and \<open>i\<close> is the first
  position that holds \<open>lo\<close>.\<close>

definition first_minimum64 :: "double list \<Rightarrow> nat \<Rightarrow> double \<Rightarrow> bool" where
  "first_minimum64 vec i lo =
     (i < length vec \<and> vec ! i = lo \<and> (\<forall>y \<in> set vec. \<not> d_less y lo)
      \<and> (\<forall>k < i. d_less lo (vec ! k)))"

section \<open>Auxiliary notions and example data\<close>

text \<open>\<open>first_minimum vec i d\<close>: \<open>d\<close> is the least value of \<open>vec\<close> and \<open>i\<close> is the first
  position that holds it.\<close>

definition first_minimum :: "real list \<Rightarrow> nat \<Rightarrow> real \<Rightarrow> bool" where
  "first_minimum vec i d =
     (d = Min (set vec) \<and> i < length vec \<and> vec ! i = d \<and> (\<forall>k < i. d < vec ! k))"

text \<open>Two customers and three non-customers over two features. The customer columns
  have the norms \<open>5\<close> and \<open>1\<close>; the third non-customer has the features of the first
  customer.\<close>

definition customers_AB :: frame where
  "customers_AB = \<lparr>width = 2, body =
     [\<lparr>UnitID = 1, feats = [3, 0]\<rparr>, \<lparr>UnitID = 2, feats = [4, 1]\<rparr>]\<rparr>"

definition prospects_CDE :: frame where
  "prospects_CDE = \<lparr>width = 2, body =
     [\<lparr>UnitID = 3, feats = [9/2, 1/10]\<rparr>, \<lparr>UnitID = 4, feats = [1/2, 9/10]\<rparr>,
      \<lparr>UnitID = 5, feats = [3, 0]\<rparr>]\<rparr>"

text \<open>The two tables after the scaling, and the non-customers with their matches.\<close>

definition scaled_AB :: frame where
  "scaled_AB = \<lparr>width = 2, body =
     [\<lparr>UnitID = 1, feats = [3/5, 0]\<rparr>, \<lparr>UnitID = 2, feats = [4/5, 1]\<rparr>]\<rparr>"

definition scaled_CDE :: frame where
  "scaled_CDE = \<lparr>width = 2, body =
     [\<lparr>UnitID = 3, feats = [9/10, 1/10]\<rparr>, \<lparr>UnitID = 4, feats = [1/10, 9/10]\<rparr>,
      \<lparr>UnitID = 5, feats = [3/5, 0]\<rparr>]\<rparr>"

definition row_C :: matched_row where
  "row_C = \<lparr>UnitID = 3, feats = [9/10, 1/10], distance_with_closest_members = 1/10,
            unitid_of_most_similar_member = Some 1\<rparr>"

definition row_D :: matched_row where
  "row_D = \<lparr>UnitID = 4, feats = [1/10, 9/10], distance_with_closest_members = 1/2,
            unitid_of_most_similar_member = Some 2\<rparr>"

definition row_E :: matched_row where
  "row_E = \<lparr>UnitID = 5, feats = [3/5, 0], distance_with_closest_members = 0,
            unitid_of_most_similar_member = Some 1\<rparr>"

definition matched_CDE :: "matched_row list" where
  "matched_CDE = [row_C, row_D, row_E]"

text \<open>The rows of the sorted table that \<^verbatim>\<open>head(n)\<close> leaves out.\<close>

definition excluded_by_distance :: "nat \<Rightarrow> matched_row list \<Rightarrow> matched_row list" where
  "excluded_by_distance n rs = drop n (sort_values_ascending distance_with_closest_members rs)"

text \<open>The states of a table in the order of the pivot's index, and the row of the
  result for one state, written with the counts of the input table.\<close>

definition states_of :: "status_row list \<Rightarrow> string list" where
  "states_of tbl = sort (remdups (map state tbl))"

definition region_of :: "status_row list \<Rightarrow> string \<Rightarrow> region" where
  "region_of tbl s =
     \<lparr>region_state = s,
      member_count = count_rows tbl s member,
      non_member_count = count_rows tbl s non_member,
      total = count_rows tbl s member + count_rows tbl s non_member,
      market_penetration_score =
        real_of_int (count_rows tbl s member)
          / real_of_int (count_rows tbl s member + count_rows tbl s non_member)\<rparr>"

text \<open>A state with 3 customers and 7 non-customers and a state with 5 non-customers.\<close>

definition scenario_regions :: "status_row list" where
  "scenario_regions =
     replicate 3 \<lparr>state = ''TX'', status = member\<rparr>
     @ replicate 7 \<lparr>state = ''TX'', status = non_member\<rparr>
     @ replicate 5 \<lparr>state = ''CA'', status = non_member\<rparr>"

text \<open>The part of a row that \<^verbatim>\<open>subset_df[vars_to_keep]\<close> keeps, and the score of a kept row:
  \<^verbatim>\<open>need_score\<close> is the fifth of the columns kept.\<close>

definition keep_row :: "data_frame \<Rightarrow> cell list \<Rightarrow> cell list" where
  "keep_row df r = map (\<lambda>p. r ! p) (concat (map (positions (columns df)) vars_to_keep))"

definition need_score :: "cell list \<Rightarrow> real" where
  "need_score r = number (r ! 4)"

text \<open>A table with the columns kept, one raw column and one standardized column, and its
  two rows of highest score.\<close>

definition scored_df :: data_frame where
  "scored_df =
     \<lparr>columns = [''UnitID'', ''Institution Name'', ''City location of institution (HD2020)'',
                 ''State abbreviation (HD2020)'', ''ZIP code (HD2020)'', ''scaled_total_ug'',
                 ''need_score''],
      records =
        [[Num 101, Txt ''Alpha College'', Txt ''Austin'', Txt ''TX'', Txt ''78701'', Num (-1), Num (-1)],
         [Num 102, Txt ''Beta University'', Txt ''Boston'', Txt ''MA'', Txt ''02108'', Num 2, Num 2],
         [Num 103, Txt ''Gamma Institute'', Txt ''Denver'', Txt ''CO'', Txt ''80202'', Num (1/2), Num (1/2)]]\<rparr>"

definition top2_df :: data_frame where
  "top2_df =
     \<lparr>columns = vars_to_keep,
      records =
        [[Num 102, Txt ''Beta University'', Txt ''Boston'', Txt ''MA'', Num 2],
         [Num 103, Txt ''Gamma Institute'', Txt ''Denver'', Txt ''CO'', Num (1/2)]]\<rparr>"

text \<open>The identifier column and the score column, the two columns that a table of
  identifier and score only would have.\<close>

definition identifier_and_score :: "string list" where
  "identifier_and_score = [''UnitID'', ''need_score'']"

section \<open>Approach 3: properties of the distance matrix\<close>

lemma sum_list_squares_nonneg: "0 \<le> (\<Sum>a\<leftarrow>x. (a::real)\<^sup>2)"
  by (induction x) simp_all

lemma norm_axis1_squared: "(norm_axis1 x)\<^sup>2 = (\<Sum>a\<leftarrow>x. a\<^sup>2)"
  by (simp add: norm_axis1_def sum_list_squares_nonneg)

lemma expansion_of_sq_euclidean:
  "length x = length y \<Longrightarrow>
     (\<Sum>a\<leftarrow>x. a\<^sup>2) - 2 * inner_prod x y + (\<Sum>b\<leftarrow>y. b\<^sup>2) = sq_euclidean x y"
  unfolding inner_prod_def sq_euclidean_def
  by (induction x y rule: list_induct2) (simp_all add: power2_diff algebra_simps)

lemma has_shape_nth: "has_shape A n p \<Longrightarrow> i < n \<Longrightarrow> length (A ! i) = p"
  by (simp add: has_shape_def list_all_length)

lemma distance_matrix_entry:
  assumes "i < length X" and "j < length Y"
  shows "distance_matrix X Y ! i ! j =
           (norm_axis1 (X ! i))\<^sup>2 - 2 * inner_prod (X ! i) (Y ! j) + (norm_axis1 (Y ! j))\<^sup>2"
  using assms
  by (simp add: distance_matrix_def Let_def mat_add_def mat_sub_def scalar_mult_def
      dot_transpose_def sq_norms_def ones_def inner_prod_def)

lemma distance_matrix_shape:
  "has_shape (distance_matrix X Y) (length X) (length Y)"
  by (simp add: has_shape_def list_all_length distance_matrix_def Let_def mat_add_def
      mat_sub_def scalar_mult_def dot_transpose_def sq_norms_def ones_def)



section \<open>Approach 3: scaling and matching\<close>

lemma idiv_features_Inr:
  assumes "idiv_features df ns = Inr df'"
  shows "width df' = width df" and "length ns = width df"
    and "body df' = map (scale_row ns) (body df)"
    and "body df \<noteq> [] \<Longrightarrow> 0 \<notin> set ns"
  using assms by (auto simp: idiv_features_def split: if_splits)

lemma scale_each_feature_Inr:
  assumes "scale_each_feature members_df non_members_df = Inr (mdf, ndf)"
  shows "body mdf = map (scale_row (norm_axis0 members_df)) (body members_df)"
    and "body ndf = map (scale_row (norm_axis0 members_df)) (body non_members_df)"
    and "width mdf = width members_df" and "width ndf = width non_members_df"
    and "width non_members_df = width members_df"
proof -
  from assms have
    m: "idiv_features members_df (norm_axis0 members_df) = Inr mdf" and
    n: "idiv_features non_members_df (norm_axis0 members_df) = Inr ndf"
    by (auto simp: scale_each_feature_def Let_def split: sum.splits)
  show "body mdf = map (scale_row (norm_axis0 members_df)) (body members_df)"
    using idiv_features_Inr(3) [OF m] .
  show "body ndf = map (scale_row (norm_axis0 members_df)) (body non_members_df)"
    using idiv_features_Inr(3) [OF n] .
  show "width mdf = width members_df"
    using idiv_features_Inr(1) [OF m] .
  show "width ndf = width non_members_df"
    using idiv_features_Inr(1) [OF n] .
  show "width non_members_df = width members_df"
    using idiv_features_Inr(2) [OF n] by (simp add: norm_axis0_def)
qed

lemma scale_each_feature_succeeds:
  assumes "width non_members_df = width members_df"
    and "\<forall>k < width members_df. col_norm members_df k \<noteq> 0"
  shows "\<exists>mdf ndf. scale_each_feature members_df non_members_df = Inr (mdf, ndf)"
proof -
  have "0 \<notin> set (norm_axis0 members_df)"
    using assms(2) by (auto simp: norm_axis0_def)
  then show ?thesis
    using assms(1) by (simp add: scale_each_feature_def idiv_features_def norm_axis0_def Let_def)
qed

lemma UnitID_scale_row: "UnitID (scale_row ns r) = UnitID r"
  by (simp add: scale_row_def)

lemma feats_scale_row_nth:
  assumes "length (feats r) = p" and "k < p" and "width df = p"
  shows "feats (scale_row (norm_axis0 df) r) ! k = feats r ! k / col_norm df k"
  using assms by (simp add: scale_row_def norm_axis0_def)

lemma length_feats_scale_row:
  "length (feats r) = width df \<Longrightarrow> length (feats (scale_row (norm_axis0 df) r)) = width df"
  by (simp add: scale_row_def norm_axis0_def)

lemma rect_nth: "rect df \<Longrightarrow> i < length (body df) \<Longrightarrow> length (feats (body df ! i)) = width df"
  by (simp add: rect_def list_all_length)

lemma sq_euclidean_nonneg: "0 \<le> sq_euclidean x y"
  unfolding sq_euclidean_def by (induction x y rule: list_induct2') simp_all

lemma sq_euclidean_eq_0_iff:
  "length x = length y \<Longrightarrow> sq_euclidean x y = 0 \<longleftrightarrow> x = y"
proof (induction x y rule: list_induct2)
  case Nil
  show ?case by (simp add: sq_euclidean_def)
next
  case (Cons a x b y)
  have split: "sq_euclidean (a # x) (b # y) = (a - b)\<^sup>2 + sq_euclidean x y"
    by (simp add: sq_euclidean_def)
  have "(a - b)\<^sup>2 + sq_euclidean x y = 0 \<longleftrightarrow> (a - b)\<^sup>2 = 0 \<and> sq_euclidean x y = 0"
    by (rule add_nonneg_eq_0_iff) (simp_all add: sq_euclidean_nonneg)
  then show ?case
    using Cons.IH by (simp add: split)
qed

lemma rect_scaled:
  assumes "rect members_df" and "rect non_members_df"
    and "scale_each_feature members_df non_members_df = Inr (mdf, ndf)"
  shows "has_shape (np_array mdf) (length (body members_df)) (width members_df)"
    and "has_shape (np_array ndf) (length (body non_members_df)) (width members_df)"
proof -
  note S = scale_each_feature_Inr [OF assms(3)]
  show "has_shape (np_array mdf) (length (body members_df)) (width members_df)"
    using assms(1)
    by (simp add: has_shape_def np_array_def S(1) rect_def list_all_length length_feats_scale_row)
  have "length (feats r) = width members_df
      \<Longrightarrow> length (feats (scale_row (norm_axis0 members_df) r)) = width members_df" for r
    by (rule length_feats_scale_row)
  then show "has_shape (np_array ndf) (length (body non_members_df)) (width members_df)"
    using assms(2) S(5)
    by (simp add: has_shape_def np_array_def S(2) rect_def list_all_length)
qed

text \<open>
  C4. In exact arithmetic every entry of the distance matrix is non-negative, and
  \<open>M[i,j]\<close> is \<open>0\<close> exactly when the scaled feature vector of customer row \<open>i\<close> and the
  scaled feature vector of non-customer row \<open>j\<close> are the same.
\<close>

theorem distance_nonneg_and_zero_iff_identical:
  assumes "rect members_df" and "rect non_members_df"
    and "scale_each_feature members_df non_members_df = Inr (mdf, ndf)"
    and "i < length (body mdf)" and "j < length (body ndf)"
  shows "0 \<le> distance_matrix (np_array mdf) (np_array ndf) ! i ! j
     \<and> (distance_matrix (np_array mdf) (np_array ndf) ! i ! j = 0
          \<longleftrightarrow> feats (body mdf ! i) = feats (body ndf ! j))"
proof -
  note R = rect_scaled [OF assms(1-3)]
  have i: "i < length (np_array mdf)" and j: "j < length (np_array ndf)"
    using assms(4,5) by (simp_all add: np_array_def)
  have len: "length (np_array mdf ! i) = length (np_array ndf ! j)"
    using has_shape_nth [OF R(1)] has_shape_nth [OF R(2)] i j R
    by (simp add: has_shape_def)
  have M: "distance_matrix (np_array mdf) (np_array ndf) ! i ! j
      = sq_euclidean (np_array mdf ! i) (np_array ndf ! j)"
    using len by (simp add: distance_matrix_entry [OF i j] norm_axis1_squared
        expansion_of_sq_euclidean)
  have rows: "np_array mdf ! i = feats (body mdf ! i)" "np_array ndf ! j = feats (body ndf ! j)"
    using assms(4,5) by (simp_all add: np_array_def)
  show ?thesis
    unfolding M using sq_euclidean_nonneg sq_euclidean_eq_0_iff [OF len]
    by (simp add: rows)
qed

lemma np_min_eq_Min: "vec \<noteq> [] \<Longrightarrow> np_min vec = Inr (Min (set vec))"
  by (cases vec) (simp_all add: np_min_def Min.set_eq_fold [symmetric])

lemma filter_upt_first:
  assumes "filter P [0..<n] = i # rest"
  shows "i < n" and "P i" and "\<forall>k < i. \<not> P k"
proof -
  have mem: "i \<in> set (filter P [0..<n])"
    by (simp add: assms)
  then show "i < n" and "P i"
    by simp_all
  have "sorted (filter P [0..<n])"
    by (rule sorted_wrt_filter) simp
  then have least: "\<forall>k \<in> set rest. i \<le> k"
    by (simp add: assms)
  show "\<forall>k < i. \<not> P k"
  proof (intro allI impI notI)
    fix k assume "k < i" and "P k"
    with \<open>i < n\<close> have "k \<in> set (filter P [0..<n])"
      by simp
    then have "k = i \<or> k \<in> set rest"
      by (simp add: assms)
    with least \<open>k < i\<close> show False
      by auto
  qed
qed

lemma match_column_first_minimum:
  assumes "M \<noteq> []"
  shows "\<exists>i. match_column M j = Inr (i, Min (set (column M j)))
           \<and> first_minimum (column M j) i (Min (set (column M j)))"
proof -
  let ?vec = "column M j" and ?lo = "Min (set (column M j))"
  have ne: "?vec \<noteq> []"
    using assms by (simp add: column_def)
  then have "?lo \<in> set ?vec"
    by simp
  then obtain i0 where "i0 < length ?vec" "?vec ! i0 = ?lo"
    by (auto simp: in_set_conv_nth)
  then have "i0 \<in> set (argwhere_eq ?vec ?lo)"
    by (simp add: argwhere_eq_def)
  then obtain i rest where arg: "argwhere_eq ?vec ?lo = i # rest"
    by (cases "argwhere_eq ?vec ?lo") auto
  note F = filter_upt_first [OF arg [unfolded argwhere_eq_def]]
  have "?lo < ?vec ! k" if "k < i" for k
  proof -
    have "?vec ! k \<in> set ?vec"
      using that F(1) by simp
    then have "?lo \<le> ?vec ! k"
      by simp
    moreover have "?vec ! k \<noteq> ?lo"
      using F(3) that by simp
    ultimately show ?thesis
      by simp
  qed
  then have "first_minimum ?vec i ?lo"
    using F(1,2) by (simp add: first_minimum_def)
  moreover have "match_column M j = Inr (i, ?lo)"
    by (simp add: match_column_def Let_def np_min_eq_Min [OF ne] arg)
  ultimately show ?thesis
    by blast
qed

lemma match_loop_first_minimum:
  assumes "M \<noteq> []"
  shows "\<exists>ix ds. match_loop M js (a, b) = Inr (a @ ix, b @ ds)
           \<and> length ix = length js \<and> length ds = length js
           \<and> (\<forall>t < length js. first_minimum (column M (js ! t)) (ix ! t) (ds ! t))"
proof (induction js arbitrary: a b)
  case Nil
  show ?case by simp
next
  case (Cons j js)
  from match_column_first_minimum [OF assms, of j]
  obtain i where col: "match_column M j = Inr (i, Min (set (column M j)))"
    and fm: "first_minimum (column M j) i (Min (set (column M j)))"
    by blast
  let ?d = "Min (set (column M j))"
  from Cons.IH [of "a @ [i]" "b @ [?d]"]
  obtain ix ds where rest: "match_loop M js (a @ [i], b @ [?d]) = Inr ((a @ [i]) @ ix, (b @ [?d]) @ ds)"
    and len: "length ix = length js" "length ds = length js"
    and all: "\<forall>t < length js. first_minimum (column M (js ! t)) (ix ! t) (ds ! t)"
    by blast
  have "match_loop M (j # js) (a, b) = Inr (a @ (i # ix), b @ (?d # ds))"
    by (simp add: col rest)
  moreover have "\<forall>t < length (j # js).
      first_minimum (column M ((j # js) ! t)) ((i # ix) ! t) ((?d # ds) ! t)"
    using fm all by (auto simp: nth_Cons split: nat.splits)
  ultimately show ?case
    using len by (intro exI [of _ "i # ix"] exI [of _ "?d # ds"]) simp
qed

lemma matching_first_minimum:
  assumes "M \<noteq> []"
  shows "\<exists>ix ds. matching m M = Inr (ix, ds) \<and> length ix = m \<and> length ds = m
           \<and> (\<forall>j < m. first_minimum (column M j) (ix ! j) (ds ! j))"
  using match_loop_first_minimum [OF assms, of "[0..<m]" "[]" "[]"]
  by (auto simp: matching_def)

lemma matching_empty_customers: "0 < m \<Longrightarrow> matching m [] = Inl ValueError"
  by (simp add: matching_def upt_conv_Cons match_column_def column_def np_min_def)

lemma column_nth: "i < length M \<Longrightarrow> column M j ! i = M ! i ! j"
  by (simp add: column_def)

lemma iloc_UnitID_in_range:
  "\<forall>t < length ixs. ixs ! t < length rs \<Longrightarrow>
     iloc_UnitID rs ixs = Inr (map (\<lambda>i. UnitID (rs ! i)) ixs)"
  by (simp add: iloc_UnitID_def list_all_length)

text \<open>
  The matching step on a matrix of reals, which holds no \<^verbatim>\<open>nan\<close>: for a customer table
  that is not empty it records for every column the minimum of the column and the
  smallest row index that attains it, and it gives every non-customer row the
  identifier of that customer.
\<close>

lemma matching_takes_first_minimum:
  assumes "has_shape M n m" and "0 < n" and "length members_rows = n"
  shows "\<exists>ix ds ids. matching m M = Inr (ix, ds) \<and> iloc_UnitID members_rows ix = Inr ids
     \<and> length ix = m \<and> length ds = m \<and> length ids = m
     \<and> (\<forall>j < m. ds ! j = Min (set (column M j))
            \<and> ix ! j < n \<and> M ! (ix ! j) ! j = ds ! j
            \<and> (\<forall>i < ix ! j. ds ! j < M ! i ! j)
            \<and> ids ! j = UnitID (members_rows ! (ix ! j)))"
proof -
  have n: "length M = n"
    using assms(1) by (simp add: has_shape_def)
  then have "M \<noteq> []"
    using assms(2) by auto
  from matching_first_minimum [OF this, of m]
  obtain ix ds where run: "matching m M = Inr (ix, ds)"
    and len: "length ix = m" "length ds = m"
    and fm: "\<forall>j < m. first_minimum (column M j) (ix ! j) (ds ! j)"
    by blast
  have each: "ds ! j = Min (set (column M j)) \<and> ix ! j < n \<and> M ! (ix ! j) ! j = ds ! j
      \<and> (\<forall>i < ix ! j. ds ! j < M ! i ! j)" if "j < m" for j
  proof -
    from fm that have f: "first_minimum (column M j) (ix ! j) (ds ! j)"
      by simp
    then have lt: "ix ! j < n"
      by (simp add: first_minimum_def column_def n)
    have "ds ! j < M ! i ! j" if "i < ix ! j" for i
    proof -
      have "i < length M" using that lt n by simp
      then show ?thesis
        using f that by (auto simp: first_minimum_def column_nth [symmetric])
    qed
    then show ?thesis
      using f lt n by (auto simp: first_minimum_def column_nth)
  qed
  have "\<forall>t < length ix. ix ! t < length members_rows"
    using each len assms(3) by simp
  then have ids: "iloc_UnitID members_rows ix = Inr (map (\<lambda>i. UnitID (members_rows ! i)) ix)"
    by (rule iloc_UnitID_in_range)
  have all: "\<forall>j < m. ds ! j = Min (set (column M j))
            \<and> ix ! j < n \<and> M ! (ix ! j) ! j = ds ! j
            \<and> (\<forall>i < ix ! j. ds ! j < M ! i ! j)
            \<and> map (\<lambda>i. UnitID (members_rows ! i)) ix ! j = UnitID (members_rows ! (ix ! j))"
  proof (intro allI impI)
    fix j assume j: "j < m"
    have "map (\<lambda>i. UnitID (members_rows ! i)) ix ! j = UnitID (members_rows ! (ix ! j))"
      using j len by simp
    with each [OF j]
    show "ds ! j = Min (set (column M j))
            \<and> ix ! j < n \<and> M ! (ix ! j) ! j = ds ! j
            \<and> (\<forall>i < ix ! j. ds ! j < M ! i ! j)
            \<and> map (\<lambda>i. UnitID (members_rows ! i)) ix ! j = UnitID (members_rows ! (ix ! j))"
      by blast
  qed
  show ?thesis
    using run ids len all
    by (intro exI [of _ ix] exI [of _ ds] exI [of _ "map (\<lambda>i. UnitID (members_rows ! i)) ix"])
      (simp only: length_map simp_thms)
qed

section \<open>Approach 3: the rows and their matches\<close>

lemma match_non_members_steps:
  assumes "match_non_members members_df non_members_df = Inr out"
  shows "\<exists>mdf ndf ix ds rs ids.
      scale_each_feature members_df non_members_df = Inr (mdf, ndf)
    \<and> matching (length (body ndf)) (distance_matrix (np_array mdf) (np_array ndf)) = Inr (ix, ds)
    \<and> set_distance (body ndf) ds = Inr rs
    \<and> iloc_UnitID (body mdf) ix = Inr ids
    \<and> out = set_most_similar rs ids"
  using assms
  by (auto simp: match_non_members_def Let_def split: sum.splits prod.splits)

lemma set_distance_Inr:
  assumes "set_distance rs ds = Inr out"
  shows "length ds = length rs" and "length out = length rs"
    and "\<forall>j < length rs. UnitID (out ! j) = UnitID (rs ! j) \<and> feats (out ! j) = feats (rs ! j)
            \<and> distance_with_closest_members (out ! j) = ds ! j"
  using assms by (auto simp: set_distance_def split: if_splits)

lemma set_most_similar_nth:
  assumes "j < length rs"
  shows "UnitID (set_most_similar rs ids ! j) = UnitID (rs ! j)"
    and "feats (set_most_similar rs ids ! j) = feats (rs ! j)"
    and "distance_with_closest_members (set_most_similar rs ids ! j)
           = distance_with_closest_members (rs ! j)"
    and "unitid_of_most_similar_member (set_most_similar rs ids ! j)
           = (if j < length ids then Some (ids ! j) else None)"
  using assms by (simp_all add: set_most_similar_def)

lemma length_set_most_similar: "length (set_most_similar rs ids) = length rs"
  by (simp add: set_most_similar_def)

lemma iloc_UnitID_Inr:
  assumes "iloc_UnitID rs ixs = Inr ids"
  shows "ids = map (\<lambda>i. UnitID (rs ! i)) ixs"
  using assms by (auto simp: iloc_UnitID_def split: if_splits)

lemma column_distance_matrix:
  assumes "has_shape X n p" and "has_shape Y m p" and "j < m"
  shows "column (distance_matrix X Y) j = map (\<lambda>x. sq_euclidean x (Y ! j)) X"
proof (rule nth_equalityI)
  show "length (column (distance_matrix X Y) j) = length (map (\<lambda>x. sq_euclidean x (Y ! j)) X)"
    using distance_matrix_shape [of X Y] by (simp add: column_def has_shape_def)
next
  fix i assume "i < length (column (distance_matrix X Y) j)"
  then have i: "i < length X"
    using distance_matrix_shape [of X Y] by (simp add: column_def has_shape_def)
  have len: "length X = n" "length Y = m"
    using assms by (simp_all add: has_shape_def)
  have "length (X ! i) = length (Y ! j)"
    using has_shape_nth [OF assms(1)] has_shape_nth [OF assms(2)] i assms(3) len by simp
  then have "distance_matrix X Y ! i ! j = sq_euclidean (X ! i) (Y ! j)"
    using i assms(3) len
    by (simp add: distance_matrix_entry norm_axis1_squared expansion_of_sq_euclidean)
  moreover have "length (distance_matrix X Y) = length X"
    using distance_matrix_shape [of X Y] by (simp add: has_shape_def)
  ultimately show "column (distance_matrix X Y) j ! i = map (\<lambda>x. sq_euclidean x (Y ! j)) X ! i"
    using i by (simp add: column_nth)
qed

lemma distance_matrix_Nil: "distance_matrix [] Y = []"
  by (simp add: distance_matrix_def Let_def mat_add_def mat_sub_def scalar_mult_def
      dot_transpose_def sq_norms_def ones_def)

lemma length_distance_matrix: "length (distance_matrix X Y) = length X"
  using distance_matrix_shape [of X Y] by (simp add: has_shape_def)

lemma UnitID_scaled:
  assumes "scale_each_feature members_df non_members_df = Inr (mdf, ndf)"
  shows "map UnitID (body mdf) = map UnitID (body members_df)"
    and "map UnitID (body ndf) = map UnitID (body non_members_df)"
  using scale_each_feature_Inr(1,2) [OF assms] by (simp_all add: comp_def UnitID_scale_row)

text \<open>
  C10. Scaling, distance computation and matching change the feature columns only: the
  \<open>UnitID\<close> column and the order of the rows of both tables stay as they were, so the
  distance and the customer identifier attached to row \<open>j\<close> of the non-customer table are
  the ones computed from the features of that row.
\<close>

theorem matching_keeps_rows_aligned:
  assumes "rect members_df" and "rect non_members_df"
    and "scale_each_feature members_df non_members_df = Inr (mdf, ndf)"
    and "match_non_members members_df non_members_df = Inr out"
  shows "map UnitID (body mdf) = map UnitID (body members_df)
    \<and> map UnitID (body ndf) = map UnitID (body non_members_df)
    \<and> map UnitID out = map UnitID (body non_members_df)
    \<and> map feats out = map feats (body ndf)
    \<and> (\<forall>j < length out.
          distance_with_closest_members (out ! j)
            = Min (set (map (\<lambda>c. sq_euclidean (feats c) (feats (out ! j))) (body mdf)))
        \<and> (\<exists>i < length (body members_df).
              unitid_of_most_similar_member (out ! j) = Some (UnitID (body members_df ! i))
            \<and> sq_euclidean (feats (body mdf ! i)) (feats (out ! j))
                = distance_with_closest_members (out ! j)))"
proof -
  let ?X = "np_array mdf" and ?Y = "np_array ndf"
  let ?D = "distance_matrix (np_array mdf) (np_array ndf)"
  let ?m = "length (body ndf)"
  from match_non_members_steps [OF assms(4)] assms(3)
  obtain ix ds rs ids where
    run: "matching ?m ?D = Inr (ix, ds)" and
    dist: "set_distance (body ndf) ds = Inr rs" and
    iloc: "iloc_UnitID (body mdf) ix = Inr ids" and
    out: "out = set_most_similar rs ids"
    by auto
  note S = scale_each_feature_Inr [OF assms(3)]
  note U = UnitID_scaled [OF assms(3)]
  note R = rect_scaled [OF assms(1-3)]
  note SD = set_distance_Inr [OF dist]
  have ids: "ids = map (\<lambda>i. UnitID (body mdf ! i)) ix"
    by (rule iloc_UnitID_Inr [OF iloc])
  have len_out: "length out = ?m"
    by (simp add: out length_set_most_similar SD(2))
  have lens: "length (body mdf) = length (body members_df)"
             "length (body ndf) = length (body non_members_df)"
    by (simp_all add: S(1,2))
  have id_out: "UnitID (out ! j) = UnitID (body ndf ! j)"
    and ft_out: "feats (out ! j) = feats (body ndf ! j)"
    and ds_out: "distance_with_closest_members (out ! j) = ds ! j"
    if "j < ?m" for j
    using that SD(2,3) by (simp_all add: out set_most_similar_nth)
  have ids_eq: "map UnitID out = map UnitID (body non_members_df)"
    unfolding U(2) [symmetric]
    by (rule nth_equalityI) (simp_all add: len_out id_out)
  have fts_eq: "map feats out = map feats (body ndf)"
    by (rule nth_equalityI) (simp_all add: len_out ft_out)
  have rows: "distance_with_closest_members (out ! j)
            = Min (set (map (\<lambda>c. sq_euclidean (feats c) (feats (out ! j))) (body mdf)))
        \<and> (\<exists>i < length (body members_df).
              unitid_of_most_similar_member (out ! j) = Some (UnitID (body members_df ! i))
            \<and> sq_euclidean (feats (body mdf ! i)) (feats (out ! j))
                = distance_with_closest_members (out ! j))"
    if j: "j < ?m" for j
  proof -
    have ne: "?D \<noteq> []"
    proof
      assume "?D = []"
      moreover have "0 < ?m"
        using j by (cases "body ndf") simp_all
      ultimately have "matching ?m ?D = Inl ValueError"
        by (simp only: matching_empty_customers)
      with run show False by simp
    qed
    from matching_first_minimum [OF ne, of ?m] run
    have lix: "length ix = ?m"
      and fm: "first_minimum (column ?D j) (ix ! j) (ds ! j)"
      using j by auto
    have Yj: "?Y ! j = feats (out ! j)"
      using j by (simp add: np_array_def ft_out)
    have col: "column ?D j = map (\<lambda>c. sq_euclidean (feats c) (feats (out ! j))) (body mdf)"
    proof -
      have "column ?D j = map (\<lambda>x. sq_euclidean x (feats (out ! j))) ?X"
        using column_distance_matrix [OF R(1) R(2) [unfolded lens(2) [symmetric]] j]
        by (simp only: Yj)
      also have "\<dots> = map (\<lambda>c. sq_euclidean (feats c) (feats (out ! j))) (body mdf)"
        by (simp add: np_array_def comp_def)
      finally show ?thesis .
    qed
    have i: "ix ! j < length (body members_df)"
      using fm by (simp add: first_minimum_def col lens)
    have "ids ! j = UnitID (body mdf ! (ix ! j))"
      using j lix by (simp add: ids)
    also have "\<dots> = UnitID (body members_df ! (ix ! j))"
      using i by (simp add: S(1) UnitID_scale_row)
    finally have idj: "ids ! j = UnitID (body members_df ! (ix ! j))" .
    have "length ids = ?m"
      by (simp add: ids lix)
    then have m_out: "unitid_of_most_similar_member (out ! j) = Some (UnitID (body members_df ! (ix ! j)))"
      using j SD(2) by (simp add: out set_most_similar_nth idj)
    have "sq_euclidean (feats (body mdf ! (ix ! j))) (feats (out ! j)) = ds ! j"
      using fm i by (simp add: first_minimum_def col lens)
    then show ?thesis
      using fm i m_out by (auto simp: ds_out [OF j] first_minimum_def col)
  qed
  have all: "\<forall>j < length out.
          distance_with_closest_members (out ! j)
            = Min (set (map (\<lambda>c. sq_euclidean (feats c) (feats (out ! j))) (body mdf)))
        \<and> (\<exists>i < length (body members_df).
              unitid_of_most_similar_member (out ! j) = Some (UnitID (body members_df ! i))
            \<and> sq_euclidean (feats (body mdf ! i)) (feats (out ! j))
                = distance_with_closest_members (out ! j))"
    using rows unfolding len_out by blast
  from U(1) U(2) ids_eq fts_eq all show ?thesis
    by blast
qed

text \<open>The steps return when the tables have the same features, no customer column is
  all zero and there is a customer.\<close>

lemma match_non_members_succeeds:
  assumes "width non_members_df = width members_df"
    and "\<forall>k < width members_df. col_norm members_df k \<noteq> 0"
    and "body members_df \<noteq> []"
  shows "\<exists>out. match_non_members members_df non_members_df = Inr out
           \<and> length out = length (body non_members_df)"
proof -
  from scale_each_feature_succeeds [OF assms(1,2)]
  obtain mdf ndf where sc: "scale_each_feature members_df non_members_df = Inr (mdf, ndf)"
    by blast
  note S = scale_each_feature_Inr [OF sc]
  let ?D = "distance_matrix (np_array mdf) (np_array ndf)"
  let ?m = "length (body ndf)"
  have lenD: "length ?D = length (body mdf)"
    by (simp add: length_distance_matrix np_array_def)
  then have ne: "?D \<noteq> []"
    using assms(3) by (auto simp: S(1))
  from matching_first_minimum [OF ne, of ?m]
  obtain ix ds where run: "matching ?m ?D = Inr (ix, ds)"
    and len: "length ix = ?m" "length ds = ?m"
    and fm: "\<forall>j < ?m. first_minimum (column ?D j) (ix ! j) (ds ! j)"
    by blast
  have "\<forall>t < length ix. ix ! t < length (body mdf)"
    using fm len lenD by (simp add: first_minimum_def column_def)
  then have iloc: "iloc_UnitID (body mdf) ix = Inr (map (\<lambda>i. UnitID (body mdf ! i)) ix)"
    by (rule iloc_UnitID_in_range)
  obtain rs where dist: "set_distance (body ndf) ds = Inr rs" and lrs: "length rs = ?m"
    using len by (simp add: set_distance_def)
  have "match_non_members members_df non_members_df
      = Inr (set_most_similar rs (map (\<lambda>i. UnitID (body mdf ! i)) ix))"
    by (simp add: match_non_members_def sc Let_def run dist iloc)
  then show ?thesis
    by (simp add: length_set_most_similar lrs S(2))
qed

text \<open>
  C5. The final output of Approach 3 is the table of non-customer rows sorted by
  \<open>distance_with_closest_members\<close> in ascending order and cut to its first \<open>n\<close> rows:
  at most \<open>n\<close> rows are returned, and every row kept is at most as far as every row left
  out.
\<close>

theorem potential_members_by_distance_closest:
  "sorted (map distance_with_closest_members (potential_members_by_distance n rs))
   \<and> length (potential_members_by_distance n rs) \<le> n
   \<and> length (potential_members_by_distance n rs) = min n (length rs)
   \<and> mset (potential_members_by_distance n rs) + mset (excluded_by_distance n rs) = mset rs
   \<and> (\<forall>k \<in> set (potential_members_by_distance n rs). \<forall>e \<in> set (excluded_by_distance n rs).
         distance_with_closest_members k \<le> distance_with_closest_members e)"
proof -
  let ?d = distance_with_closest_members
  let ?s = "sort_key ?d rs"
  have srt: "sorted (map ?d ?s)"
    by (rule sorted_sort_key)
  have split: "map ?d ?s = map ?d (take n ?s) @ map ?d (drop n ?s)"
    by (simp flip: map_append)
  have 1: "sorted (map ?d (take n ?s))"
    using srt by (subst (asm) split) (simp add: sorted_append)
  have 2: "\<forall>k \<in> set (take n ?s). \<forall>e \<in> set (drop n ?s). ?d k \<le> ?d e"
    using srt by (subst (asm) split) (auto simp: sorted_append)
  have "mset (take n ?s) + mset (drop n ?s) = mset ?s"
    by (simp flip: mset_append)
  then have 3: "mset (take n ?s) + mset (drop n ?s) = mset rs"
    by simp
  show ?thesis
    using 1 2 3
    by (simp add: potential_members_by_distance_def excluded_by_distance_def head_def
        sort_values_ascending_def)
qed

subsection \<open>The example, step by step\<close>

lemma sqrt_25: "sqrt 25 = 5"
  by (rule real_sqrt_unique) simp_all

lemma norm_axis0_customers_AB: "norm_axis0 customers_AB = [5, 1]"
  by (simp add: norm_axis0_def col_norm_def customers_AB_def numeral_2_eq_2 sqrt_25)

lemma rect_example: "rect customers_AB" "rect prospects_CDE"
  by (simp_all add: rect_def customers_AB_def prospects_CDE_def)

lemma scale_example: "scale_each_feature customers_AB prospects_CDE = Inr (scaled_AB, scaled_CDE)"
  unfolding scale_each_feature_def norm_axis0_customers_AB Let_def
  by (simp add: idiv_features_def customers_AB_def prospects_CDE_def scale_row_def
      scaled_AB_def scaled_CDE_def)

lemma distance_matrix_example:
  "distance_matrix (np_array scaled_AB) (np_array scaled_CDE)
     = [[1/10, 53/50, 0], [41/50, 1/2, 26/25]]"
  by (simp add: distance_matrix_def Let_def mat_add_def mat_sub_def scalar_mult_def
      dot_transpose_def sq_norms_def ones_def inner_prod_def norm_axis1_squared
      np_array_def scaled_AB_def scaled_CDE_def)
    (simp add: power2_eq_square)

lemma matching_example:
  "matching 3 [[1/10, 53/50, 0], [41/50, 1/2, 26/25]] = Inr ([0, 1, 0], [1/10, 1/2, 0])"
  by (simp add: matching_def match_column_def column_def np_min_def argwhere_eq_def
      Let_def numeral_3_eq_3)

lemma match_non_members_example:
  "match_non_members customers_AB prospects_CDE = Inr matched_CDE"
proof -
  have m: "length (body scaled_CDE) = 3"
    by (simp add: scaled_CDE_def)
  have d: "set_distance (body scaled_CDE) [1/10, 1/2, 0]
      = Inr [\<lparr>UnitID = 3, feats = [9/10, 1/10], distance_with_closest_members = 1/10\<rparr>,
             \<lparr>UnitID = 4, feats = [1/10, 9/10], distance_with_closest_members = 1/2\<rparr>,
             \<lparr>UnitID = 5, feats = [3/5, 0], distance_with_closest_members = 0\<rparr>]"
    by (simp add: set_distance_def scaled_CDE_def)
  have i: "iloc_UnitID (body scaled_AB) [0, 1, 0] = Inr [1, 2, 1]"
    by (simp add: iloc_UnitID_def scaled_AB_def)
  have "match_non_members customers_AB prospects_CDE
      = Inr (set_most_similar
          [\<lparr>UnitID = 3, feats = [9/10, 1/10], distance_with_closest_members = 1/10\<rparr>,
           \<lparr>UnitID = 4, feats = [1/10, 9/10], distance_with_closest_members = 1/2\<rparr>,
           \<lparr>UnitID = 5, feats = [3/5, 0], distance_with_closest_members = 0\<rparr>] [1, 2, 1])"
    by (simp only: match_non_members_def scale_example sum.case prod.case Let_def m
        distance_matrix_example matching_example d i)
  then show ?thesis
    by (simp add: set_most_similar_def matched_CDE_def row_C_def row_D_def row_E_def
        numeral_3_eq_3)
qed

lemma potential_members_example:
  "potential_members_by_distance 2 matched_CDE = [row_E, row_C]"
  "excluded_by_distance 2 matched_CDE = [row_D]"
  by (simp_all add: potential_members_by_distance_def excluded_by_distance_def head_def
      sort_values_ascending_def matched_CDE_def row_C_def row_D_def row_E_def)

lemma approach3_example: "approach3 2 customers_AB prospects_CDE = Inr [row_E, row_C]"
  by (simp add: approach3_def match_non_members_example potential_members_example)

subsection \<open>The theorems at the example\<close>

theorem distance_nonneg_and_zero_iff_identical_witness:
  "rect customers_AB \<and> rect prospects_CDE
   \<and> scale_each_feature customers_AB prospects_CDE = Inr (scaled_AB, scaled_CDE)
   \<and> 0 < length (body scaled_AB) \<and> 2 < length (body scaled_CDE)
   \<and> 0 \<le> distance_matrix (np_array scaled_AB) (np_array scaled_CDE) ! 0 ! 2
   \<and> distance_matrix (np_array scaled_AB) (np_array scaled_CDE) ! 0 ! 2 = 0
   \<and> feats (body scaled_AB ! 0) = feats (body scaled_CDE ! 2)"
proof -
  have i: "0 < length (body scaled_AB)" and j: "2 < length (body scaled_CDE)"
    by (simp_all add: scaled_AB_def scaled_CDE_def)
  have same: "feats (body scaled_AB ! 0) = feats (body scaled_CDE ! 2)"
    by (simp add: scaled_AB_def scaled_CDE_def)
  from distance_nonneg_and_zero_iff_identical [OF rect_example scale_example i j] same
  have "0 \<le> distance_matrix (np_array scaled_AB) (np_array scaled_CDE) ! 0 ! 2"
    and "distance_matrix (np_array scaled_AB) (np_array scaled_CDE) ! 0 ! 2 = 0"
    by simp_all
  then show ?thesis
    using rect_example scale_example i j same by blast
qed

theorem matching_keeps_rows_aligned_witness:
  "rect customers_AB \<and> rect prospects_CDE
   \<and> scale_each_feature customers_AB prospects_CDE = Inr (scaled_AB, scaled_CDE)
   \<and> match_non_members customers_AB prospects_CDE = Inr matched_CDE
   \<and> map UnitID (body scaled_AB) = map UnitID (body customers_AB)
   \<and> map UnitID matched_CDE = map UnitID (body prospects_CDE)
   \<and> map UnitID matched_CDE = [3, 4, 5]
   \<and> map feats matched_CDE = map feats (body scaled_CDE)
   \<and> map unitid_of_most_similar_member matched_CDE = [Some 1, Some 2, Some 1]"
proof -
  from matching_keeps_rows_aligned [OF rect_example scale_example match_non_members_example]
  have "map UnitID (body scaled_AB) = map UnitID (body customers_AB)"
    and "map UnitID matched_CDE = map UnitID (body prospects_CDE)"
    and "map feats matched_CDE = map feats (body scaled_CDE)"
    by blast+
  moreover have "map UnitID matched_CDE = [3, 4, 5]"
    and "map unitid_of_most_similar_member matched_CDE = [Some 1, Some 2, Some 1]"
    by (simp_all add: matched_CDE_def row_C_def row_D_def row_E_def)
  ultimately show ?thesis
    using rect_example scale_example match_non_members_example by blast
qed

theorem potential_members_by_distance_closest_witness:
  "potential_members_by_distance 2 matched_CDE = [row_E, row_C]
   \<and> excluded_by_distance 2 matched_CDE = [row_D]
   \<and> row_C \<in> set (potential_members_by_distance 2 matched_CDE)
   \<and> row_D \<in> set (excluded_by_distance 2 matched_CDE)
   \<and> distance_with_closest_members row_C \<le> distance_with_closest_members row_D
   \<and> length (potential_members_by_distance 2 matched_CDE) \<le> 2"
proof -
  have k: "row_C \<in> set (potential_members_by_distance 2 matched_CDE)"
    and e: "row_D \<in> set (excluded_by_distance 2 matched_CDE)"
    by (simp_all add: potential_members_example)
  from potential_members_by_distance_closest [of 2 matched_CDE] k e
  have "distance_with_closest_members row_C \<le> distance_with_closest_members row_D"
    and "length (potential_members_by_distance 2 matched_CDE) \<le> 2"
    by blast+
  then show ?thesis
    using k e potential_members_example by blast
qed

section \<open>Approach 2: properties of the scores\<close>

lemma concat_map_single_key:
  "distinct xs \<Longrightarrow> concat (map (\<lambda>x. if x = s then A else []) xs) = (if s \<in> set xs then A else [])"
  by (induction xs) auto

lemma pair_observed_iff:
  "(s, c) \<in> set (map (\<lambda>r. (state r, status r)) tbl)
     \<longleftrightarrow> (\<exists>r \<in> set tbl. state r = s \<and> status r = c)"
  by auto

lemma filter_groupby_count:
  "filter (\<lambda>(s', c', _). s' = s \<and> c' = c) (groupby_count tbl) =
     (if \<exists>r \<in> set tbl. state r = s \<and> status r = c then [(s, c, count_rows tbl s c)] else [])"
proof -
  let ?P = "\<lambda>(s', c', _::int). s' = s \<and> c' = c"
  let ?obs = "\<lambda>s c. \<exists>r \<in> set tbl. state r = s \<and> status r = c"
  let ?A = "if ?obs s c then [(s, c, count_rows tbl s c)] else []"
  have inner: "filter ?P (map (\<lambda>c. (s', c, count_rows tbl s' c)) (filter (?obs s') [member, non_member]))
      = (if s' = s then ?A else [])" for s'
    by (cases c) (auto simp: filter_map comp_def)
  have "filter ?P (groupby_count tbl) =
      concat (map (\<lambda>s'. if s' = s then ?A else []) (sort (remdups (map state tbl))))"
    unfolding groupby_count_def pair_observed_iff filter_concat map_map comp_def inner ..
  also have "\<dots> = (if s \<in> set (sort (remdups (map state tbl))) then ?A else [])"
    by (rule concat_map_single_key) simp
  also have "\<dots> = ?A"
    by auto
  finally show ?thesis .
qed

lemma count_rows_zero: "\<not> (\<exists>r \<in> set tbl. state r = s \<and> status r = c) \<Longrightarrow> count_rows tbl s c = 0"
  by (auto simp: count_rows_def filter_empty_conv)

lemma pivot_cell_groupby_count: "pivot_cell (groupby_count tbl) 0 s c = count_rows tbl s c"
  unfolding pivot_cell_def filter_groupby_count
  by (simp add: count_rows_zero)

lemma status_cases: "c = member \<or> c = non_member"
  by (cases c) simp_all

lemma mem_groupby_count:
  "(s, c, v) \<in> set (groupby_count tbl) \<longleftrightarrow>
     (\<exists>r \<in> set tbl. state r = s \<and> status r = c) \<and> v = count_rows tbl s c"
  using status_cases [of c] unfolding groupby_count_def pair_observed_iff by auto

lemma groupby_count_states: "set (map fst (groupby_count tbl)) = set (map state tbl)"
proof (intro set_eqI iffI)
  fix s assume "s \<in> set (map fst (groupby_count tbl))"
  then obtain c v where "(s, c, v) \<in> set (groupby_count tbl)" by auto
  then show "s \<in> set (map state tbl)" by (auto simp: mem_groupby_count)
next
  fix s assume "s \<in> set (map state tbl)"
  then obtain r where r: "r \<in> set tbl" "state r = s" by auto
  then have "(s, status r, count_rows tbl s (status r)) \<in> set (groupby_count tbl)"
    by (auto simp: mem_groupby_count)
  then show "s \<in> set (map fst (groupby_count tbl))" by force
qed

lemma groupby_count_labels: "set (map (fst \<circ> snd) (groupby_count tbl)) = set (map status tbl)"
proof (intro set_eqI iffI)
  fix c assume "c \<in> set (map (fst \<circ> snd) (groupby_count tbl))"
  then obtain s v where "(s, c, v) \<in> set (groupby_count tbl)" by auto
  then show "c \<in> set (map status tbl)" by (auto simp: mem_groupby_count)
next
  fix c assume "c \<in> set (map status tbl)"
  then obtain r where r: "r \<in> set tbl" "status r = c" by auto
  then have "(state r, c, count_rows tbl (state r) c) \<in> set (groupby_count tbl)"
    by (auto simp: mem_groupby_count)
  then show "c \<in> set (map (fst \<circ> snd) (groupby_count tbl))" by force
qed

lemma sort_remdups_cong: "set xs = set ys \<Longrightarrow> sort (remdups xs) = sort (remdups ys)"
  by (metis sorted_list_of_set_sort_remdups)

lemma index_pivot_table:
  "index (pivot_table (groupby_count tbl) 0) = states_of tbl"
  unfolding states_of_def
  by (simp add: pivot_table_def Let_def sort_remdups_cong [OF groupby_count_states])

lemma getitem_pivot_table:
  "getitem (pivot_table (groupby_count tbl) 0) c =
     (if c \<in> set (map status tbl) then Inr (map (\<lambda>s. count_rows tbl s c) (states_of tbl))
      else Inl (KeyError (label c)))"
proof -
  have idx: "sort (remdups (map fst (groupby_count tbl))) = states_of tbl"
    unfolding states_of_def by (rule sort_remdups_cong [OF groupby_count_states])
  show ?thesis
    unfolding getitem_def pivot_table_def Let_def idx groupby_count_labels
    by (cases c) (auto simp: pivot_cell_groupby_count)
qed

lemma count_rows_add:
  "count_rows tbl s member + count_rows tbl s non_member
     = int (length (filter (\<lambda>r. state r = s) tbl))"
proof (induction tbl)
  case Nil
  show ?case by (simp add: count_rows_def)
next
  case (Cons r tbl)
  then show ?case
    using status_cases [of "status r"] by (auto simp: count_rows_def)
qed

lemma count_rows_nonneg: "0 \<le> count_rows tbl s c"
  by (simp add: count_rows_def)

lemma set_states_of: "set (states_of tbl) = set (map state tbl)"
  by (simp add: states_of_def)

lemma total_positive:
  assumes "s \<in> set (states_of tbl)"
  shows "1 \<le> count_rows tbl s member + count_rows tbl s non_member"
proof -
  from assms obtain r where "r \<in> set tbl" "state r = s"
    by (auto simp: set_states_of)
  then have "filter (\<lambda>r. state r = s) tbl \<noteq> []"
    by (auto simp: filter_empty_conv)
  then have "0 < length (filter (\<lambda>r. state r = s) tbl)"
    by simp
  then show ?thesis
    unfolding count_rows_add by linarith
qed

lemma map2_same_list: "map2 h (map f xs) (map g xs) = map (\<lambda>x. h (f x) (g x)) xs"
  by (induction xs) simp_all

lemma market_penetration_eq:
  "market_penetration tbl =
     (if member \<notin> set (map status tbl) then Inl (KeyError ''member'')
      else if non_member \<notin> set (map status tbl) then Inl (KeyError ''non_member'')
      else Inr (map (region_of tbl) (states_of tbl)))"
proof -
  have nz: "0 \<notin> set (map (\<lambda>s. count_rows tbl s member + count_rows tbl s non_member)
                        (states_of tbl))"
    using total_positive [of _ tbl] by fastforce
  show ?thesis
    unfolding market_penetration_def Let_def getitem_pivot_table index_pivot_table
    using nz
    by (auto simp: label_def region_of_def map2_same_list intro!: nth_equalityI)
qed

lemma count_rows_Cons:
  "count_rows (r # tbl) s c = (if state r = s \<and> status r = c then 1 else 0) + count_rows tbl s c"
  by (simp add: count_rows_def)

lemma sum_count_rows:
  assumes "distinct xs" and "set (map state tbl) \<subseteq> set xs"
  shows "(\<Sum>s\<leftarrow>xs. count_rows tbl s c) = int (length (filter (\<lambda>r. status r = c) tbl))"
  using assms(2)
proof (induction tbl)
  case Nil
  show ?case by (simp add: count_rows_def)
next
  case (Cons r tbl)
  have "(\<Sum>s\<leftarrow>xs. if state r = s \<and> status r = c then 1 else 0::int)
          = (\<Sum>s\<in>set xs. if s = state r then (if status r = c then 1 else 0) else 0)"
    unfolding sum_list_distinct_conv_sum_set [OF assms(1)]
    by (rule sum.cong) auto
  also have "\<dots> = (if status r = c then 1 else 0)"
    using Cons.prems by (simp add: sum.delta)
  finally have one: "(\<Sum>s\<leftarrow>xs. if state r = s \<and> status r = c then 1 else 0::int)
          = (if status r = c then 1 else 0)" .
  have "(\<Sum>s\<leftarrow>xs. count_rows (r # tbl) s c)
          = (\<Sum>s\<leftarrow>xs. if state r = s \<and> status r = c then 1 else 0) + (\<Sum>s\<leftarrow>xs. count_rows tbl s c)"
    by (simp add: count_rows_Cons sum_list_addf)
  then show ?case
    using Cons one by simp
qed

lemma score_region_of:
  assumes "s \<in> set (states_of tbl)"
  shows "0 \<le> market_penetration_score (region_of tbl s)"
    and "market_penetration_score (region_of tbl s) \<le> 1"
proof -
  let ?a = "count_rows tbl s member" and ?b = "count_rows tbl s non_member"
  have pos: "0 < real_of_int (?a + ?b)"
    using total_positive [OF assms] by simp
  have a: "0 \<le> real_of_int ?a" and b: "0 \<le> real_of_int ?b"
    by (simp_all add: count_rows_nonneg)
  show "0 \<le> market_penetration_score (region_of tbl s)"
    using a pos by (simp add: region_of_def)
  have "real_of_int ?a \<le> real_of_int (?a + ?b)"
    using b by simp
  then show "market_penetration_score (region_of tbl s) \<le> 1"
    using pos by (simp add: region_of_def)
qed

lemma market_penetration_returns:
  assumes "member \<in> set (map status tbl)" and "non_member \<in> set (map status tbl)"
  shows "market_penetration tbl = Inr (map (region_of tbl) (states_of tbl))"
  using assms by (simp add: market_penetration_eq)

text \<open>
  What holds of the scores: on a table with at least one customer and at least one
  non-customer the computation returns one row for each state; the score of a region is
  its customer count divided by the sum of its two counts, the counts being those of
  the region's rows in the table; it lies between \<open>0\<close> and \<open>1\<close>; and the customer counts
  of the regions add up to the number of customers in the table.
\<close>

lemma market_penetration_scores:
  assumes "member \<in> set (map status tbl)" and "non_member \<in> set (map status tbl)"
  shows "\<exists>rs. market_penetration tbl = Inr rs
     \<and> map region_state rs = sort (remdups (map state tbl))
     \<and> (\<forall>r \<in> set rs.
           member_count r = count_rows tbl (region_state r) member
         \<and> non_member_count r = count_rows tbl (region_state r) non_member
         \<and> market_penetration_score r
             = real_of_int (member_count r) / real_of_int (member_count r + non_member_count r)
         \<and> 0 \<le> market_penetration_score r \<and> market_penetration_score r \<le> 1)
     \<and> sum_list (map member_count rs) = int (length (filter (\<lambda>r. status r = member) tbl))"
proof -
  let ?rs = "map (region_of tbl) (states_of tbl)"
  have run: "market_penetration tbl = Inr ?rs"
    by (rule market_penetration_returns [OF assms])
  have names: "map region_state ?rs = sort (remdups (map state tbl))"
    by (simp add: region_of_def states_of_def comp_def)
  have each: "\<forall>r \<in> set ?rs.
           member_count r = count_rows tbl (region_state r) member
         \<and> non_member_count r = count_rows tbl (region_state r) non_member
         \<and> market_penetration_score r
             = real_of_int (member_count r) / real_of_int (member_count r + non_member_count r)
         \<and> 0 \<le> market_penetration_score r \<and> market_penetration_score r \<le> 1"
  proof
    fix r assume "r \<in> set ?rs"
    then obtain s where s: "s \<in> set (states_of tbl)" and r: "r = region_of tbl s"
      by auto
    show "member_count r = count_rows tbl (region_state r) member
         \<and> non_member_count r = count_rows tbl (region_state r) non_member
         \<and> market_penetration_score r
             = real_of_int (member_count r) / real_of_int (member_count r + non_member_count r)
         \<and> 0 \<le> market_penetration_score r \<and> market_penetration_score r \<le> 1"
      using score_region_of [OF s] unfolding r by (simp add: region_of_def)
  qed
  have "sum_list (map member_count ?rs) = (\<Sum>s\<leftarrow>states_of tbl. count_rows tbl s member)"
    by (simp add: region_of_def comp_def)
  also have "\<dots> = int (length (filter (\<lambda>r. status r = member) tbl))"
    by (rule sum_count_rows) (simp_all add: states_of_def)
  finally have total: "sum_list (map member_count ?rs)
      = int (length (filter (\<lambda>r. status r = member) tbl))" .
  show ?thesis
    using run names each total by blast
qed

lemma market_penetration_returns_iff:
  "(\<exists>rs. market_penetration tbl = Inr rs)
     \<longleftrightarrow> member \<in> set (map status tbl) \<and> non_member \<in> set (map status tbl)"
  by (simp add: market_penetration_eq)

lemma states_of_scenario: "states_of scenario_regions = [''CA'', ''TX'']"
  unfolding states_of_def scenario_regions_def
  by (simp add: numeral_eq_Suc)

lemma market_penetration_scenario:
  "market_penetration scenario_regions =
     Inr [\<lparr>region_state = ''CA'', member_count = 0, non_member_count = 5, total = 5,
           market_penetration_score = 0\<rparr>,
          \<lparr>region_state = ''TX'', member_count = 3, non_member_count = 7, total = 10,
           market_penetration_score = 3 / 10\<rparr>]"
  unfolding market_penetration_eq states_of_scenario
  by (simp add: scenario_regions_def region_of_def count_rows_def numeral_eq_Suc)

lemma market_penetration_never_divides_by_zero: "market_penetration tbl \<noteq> Inl NonFinite"
  by (simp add: market_penetration_eq)

lemma market_penetration_one_sided_regions:
  assumes "market_penetration tbl = Inr rs" and "r \<in> set rs"
  shows "1 \<le> total r"
    and "member_count r = 0 \<Longrightarrow> market_penetration_score r = 0"
    and "non_member_count r = 0 \<Longrightarrow> market_penetration_score r = 1"
proof -
  from assms obtain s where s: "s \<in> set (states_of tbl)" and r: "r = region_of tbl s"
    by (auto simp: market_penetration_eq split: if_splits)
  show "1 \<le> total r"
    using total_positive [OF s] by (simp add: r region_of_def)
  show "member_count r = 0 \<Longrightarrow> market_penetration_score r = 0"
    by (simp add: r region_of_def)
  show "non_member_count r = 0 \<Longrightarrow> market_penetration_score r = 1"
    using total_positive [OF s] by (simp add: r region_of_def)
qed

text \<open>
  C7. For every region of the table the computation never divides by zero, a region with
  non-customers only gets the ratio \<open>0\<close> and a region with customers only the ratio \<open>1\<close>.
  The two lemmas above are what holds of this: no table leads to a division by zero, and
  the ratios are \<open>0\<close> and \<open>1\<close> whenever the computation returns. It does not return on a
  table without any customer: the pivot then has no column \<^verbatim>\<open>member\<close>, and
  \<^verbatim>\<open>market_df['member']\<close> raises \<^verbatim>\<open>KeyError\<close> where the ratio \<open>0\<close> is expected.
\<close>

theorem market_penetration_only_non_members_raises:
  "market_penetration (replicate 5 \<lparr>state = ''CA'', status = non_member\<rparr>)
     = Inl (KeyError ''member'')"
  by (simp add: market_penetration_eq)

text \<open>
  C6. For every table of rows of state and membership status, each region's score is
  its customer count divided by the sum of its customer count and its non-customer
  count, it lies between \<open>0\<close> and \<open>1\<close>, and the customer counts of the regions add up to the
  number of customers in the table. The lemma \<open>market_penetration_scores\<close> above is what
  holds of this. On a table of customers only the computation returns no score: the pivot
  has no column \<^verbatim>\<open>non_member\<close>, and \<^verbatim>\<open>market_df['non_member']\<close> raises \<^verbatim>\<open>KeyError\<close> where
  the score \<open>1\<close> and the customer count \<open>3\<close> are expected.
\<close>

theorem market_penetration_only_members_raises:
  "market_penetration (replicate 3 \<lparr>state = ''TX'', status = member\<rparr>)
     = Inl (KeyError ''non_member'')"
  by (simp add: market_penetration_eq)

section \<open>Approach 1: properties of the selection\<close>

lemma filter_eq_upt: "filter (\<lambda>j. j = i) [0..<n] = (if i < n then [i] else [])"
  by (induction n) auto

lemma positions_distinct:
  assumes "distinct cs" and "i < length cs"
  shows "positions cs (cs ! i) = [i]"
proof -
  have "filter (\<lambda>j. cs ! j = cs ! i) [0..<length cs] = filter (\<lambda>j. j = i) [0..<length cs]"
    using assms by (intro filter_cong) (auto simp: nth_eq_iff_index_eq)
  then show ?thesis
    using assms(2) by (simp add: positions_def filter_eq_upt)
qed

lemma positions_single:
  assumes "distinct cs" and "v \<in> set cs"
  shows "\<exists>i < length cs. cs ! i = v \<and> positions cs v = [i]"
proof -
  from assms(2) obtain i where "i < length cs" "cs ! i = v"
    by (auto simp: in_set_conv_nth)
  then show ?thesis
    using positions_distinct [OF assms(1), of i] by auto
qed

lemma positions_vars_to_keep: "positions vars_to_keep ''need_score'' = [4]"
  by (simp add: positions_def vars_to_keep_def upt_rec)

lemma distinct_vars_to_keep: "distinct vars_to_keep"
  by (simp add: vars_to_keep_def)

lemma working_columns_dropped: "set vars_to_keep \<inter> set working_columns = {}"
  by (simp add: vars_to_keep_def working_columns_def standardized_dict_def)

lemma concat_positions:
  assumes "distinct cs" and "set vars \<subseteq> set cs"
  shows "concat (map (positions cs) vars) = map (\<lambda>v. hd (positions cs v)) vars"
  using assms(2)
proof (induction vars)
  case Nil
  show ?case by simp
next
  case (Cons v vars)
  then have "v \<in> set cs" by simp
  from positions_single [OF assms(1) this] obtain i where "positions cs v = [i]"
    by blast
  then show ?case
    using Cons by simp
qed

lemma columns_at_positions:
  assumes "distinct cs" and "set vars \<subseteq> set cs"
  shows "map (\<lambda>p. cs ! p) (concat (map (positions cs) vars)) = vars"
proof -
  have "cs ! hd (positions cs v) = v" if "v \<in> set vars" for v
  proof -
    from that assms(2) have "v \<in> set cs" by auto
    from positions_single [OF assms(1) this] show ?thesis by auto
  qed
  then show ?thesis
    unfolding concat_positions [OF assms] by (simp add: map_idI comp_def)
qed

lemma getitem_columns_present:
  assumes "distinct (columns df)" and "set vars \<subseteq> set (columns df)"
  shows "getitem_columns df vars
    = Inr \<lparr>columns = vars,
           records = map (\<lambda>r. map (\<lambda>p. r ! p) (concat (map (positions (columns df)) vars)))
                       (records df)\<rparr>"
proof -
  have "filter (\<lambda>v. v \<notin> set (columns df)) vars = []"
    using assms(2) by (auto simp: filter_empty_conv)
  then show ?thesis
    by (simp add: getitem_columns_def Let_def columns_at_positions [OF assms])
qed

lemma getitem_columns_missing:
  assumes "v \<in> set vars" and "v \<notin> set (columns df)"
  shows "\<exists>w. getitem_columns df vars = Inl (KeyError w)"
proof -
  have "filter (\<lambda>v. v \<notin> set (columns df)) vars \<noteq> []"
    using assms by (auto simp: filter_empty_conv)
  then show ?thesis
    by (cases "filter (\<lambda>v. v \<notin> set (columns df)) vars") (simp_all add: getitem_columns_def)
qed

lemma keep_row_need_score:
  assumes "distinct (columns df)" and "set vars_to_keep \<subseteq> set (columns df)"
  shows "keep_row df r ! 4 = r ! hd (positions (columns df) ''need_score'')"
proof -
  have "keep_row df r = map (\<lambda>v. r ! hd (positions (columns df) v)) vars_to_keep"
    by (simp add: keep_row_def concat_positions [OF assms] comp_def)
  then show ?thesis
    by (simp add: vars_to_keep_def)
qed

lemma sorted_cell_key:
  assumes "list_all (\<lambda>r. is_Num (r ! k)) rs"
  shows "sorted (map (\<lambda>r. cell_key (r ! k)) rs) \<longleftrightarrow> sorted (map (\<lambda>r. number (r ! k)) rs)"
proof -
  have key: "cell_key (r ! k) = (number (r ! k), [])" if "r \<in> set rs" for r
    using assms that by (cases "r ! k") (auto simp: cell_key_def list_all_iff)
  have eq: "map (\<lambda>r. cell_key (r ! k)) rs = map (\<lambda>r. (number (r ! k), [])) rs"
    using key by simp
  have pairs: "sorted (map (\<lambda>r. (f r, [] :: string)) xs) \<longleftrightarrow> sorted (map f xs)"
    for f :: "cell list \<Rightarrow> real" and xs
    by (induction xs) auto
  show ?thesis
    unfolding eq by (rule pairs)
qed

lemma sort_values_descending_numeric:
  assumes "positions (columns df) by = [k]" and "list_all (\<lambda>r. is_Num (r ! k)) (records df)"
  shows "\<exists>sorted_rows. sort_values_descending by df = Inr (df\<lparr>records := sorted_rows\<rparr>)
           \<and> mset sorted_rows = mset (records df)
           \<and> sorted (rev (map (\<lambda>r. number (r ! k)) sorted_rows))"
proof -
  let ?rs = "rev (sort_key (\<lambda>r. cell_key (r ! k)) (rev (records df)))"
  have run: "sort_values_descending by df = Inr (df\<lparr>records := ?rs\<rparr>)"
    using assms by (simp add: sort_values_descending_def)
  have ms: "mset ?rs = mset (records df)"
    by simp
  have "list_all (\<lambda>r. is_Num (r ! k)) (sort_key (\<lambda>r. cell_key (r ! k)) (rev (records df)))"
    using assms(2) by (simp add: list_all_iff)
  from sorted_cell_key [OF this]
  have "sorted (map (\<lambda>r. number (r ! k)) (sort_key (\<lambda>r. cell_key (r ! k)) (rev (records df))))"
    by (simp add: sorted_sort_key)
  then have "sorted (rev (map (\<lambda>r. number (r ! k)) ?rs))"
    by (simp add: rev_map)
  with run ms show ?thesis
    by blast
qed

text \<open>
  C8. The output of Approach 1 is the table of non-customer rows sorted by \<open>need_score\<close>
  in descending order and cut to its first \<open>n\<close> rows. Its columns are those of
  \<^verbatim>\<open>vars_to_keep\<close>: the identifier \<open>UnitID\<close>, the name, city and state of the institution,
  and \<open>need_score\<close>; no working column, raw, intermediate or standardized, is left.
\<close>

theorem potential_members_by_need_top:
  assumes "distinct (columns subset_df)"
    and "set vars_to_keep \<subseteq> set (columns subset_df)"
    and "list_all (\<lambda>r. is_Num (r ! hd (positions (columns subset_df) ''need_score'')))
           (records subset_df)"
  shows "\<exists>out sorted_rows. potential_members_by_need n subset_df = Inr out
     \<and> columns out = vars_to_keep
     \<and> set (columns out) \<inter> set working_columns = {}
     \<and> records out = take n sorted_rows
     \<and> length (records out) \<le> n
     \<and> mset sorted_rows = mset (map (keep_row subset_df) (records subset_df))
     \<and> sorted (rev (map need_score sorted_rows))"
proof -
  let ?kept = "\<lparr>columns = vars_to_keep,
                records = map (keep_row subset_df) (records subset_df)\<rparr>"
  have kept: "getitem_columns subset_df vars_to_keep = Inr ?kept"
    using getitem_columns_present [OF assms(1,2)] by (simp add: keep_row_def [abs_def])
  have pos: "positions (columns ?kept) ''need_score'' = [4]"
    by (simp add: positions_vars_to_keep)
  have numeric: "list_all (\<lambda>r. is_Num (r ! 4)) (records ?kept)"
    using assms(3) by (simp add: list_all_iff keep_row_need_score [OF assms(1,2)])
  from sort_values_descending_numeric [OF pos numeric]
  obtain sorted_rows where
    run: "sort_values_descending ''need_score'' ?kept = Inr (?kept\<lparr>records := sorted_rows\<rparr>)"
    and ms: "mset sorted_rows = mset (map (keep_row subset_df) (records subset_df))"
    and srt: "sorted (rev (map (\<lambda>r. number (r ! 4)) sorted_rows))"
    by auto
  let ?out = "\<lparr>columns = vars_to_keep, records = take n sorted_rows\<rparr>"
  have "potential_members_by_need n subset_df = Inr ?out"
    by (simp add: potential_members_by_need_def kept run head_frame_def head_def)
  moreover have "set (columns ?out) \<inter> set working_columns = {}"
    by (simp add: working_columns_dropped)
  moreover have "sorted (rev (map need_score sorted_rows))"
    using srt by (simp add: need_score_def [abs_def])
  ultimately show ?thesis
    using ms by (intro exI [of _ ?out] exI [of _ sorted_rows]) simp
qed

lemma potential_members_by_need_missing_column:
  assumes "v \<in> set vars_to_keep" and "v \<notin> set (columns subset_df)"
  shows "\<exists>w. potential_members_by_need n subset_df = Inl (KeyError w)"
  using getitem_columns_missing [OF assms] by (auto simp: potential_members_by_need_def)

lemma positions_scored_df:
  "concat (map (positions (columns scored_df)) vars_to_keep) = [0, 1, 2, 3, 6]"
  by (simp add: positions_def scored_df_def vars_to_keep_def upt_rec)

lemma potential_members_by_need_example: "potential_members_by_need 2 scored_df = Inr top2_df"
proof -
  have "getitem_columns scored_df vars_to_keep
      = Inr \<lparr>columns = vars_to_keep,
             records =
               [[Num 101, Txt ''Alpha College'', Txt ''Austin'', Txt ''TX'', Num (-1)],
                [Num 102, Txt ''Beta University'', Txt ''Boston'', Txt ''MA'', Num 2],
                [Num 103, Txt ''Gamma Institute'', Txt ''Denver'', Txt ''CO'', Num (1/2)]]\<rparr>"
    unfolding getitem_columns_def Let_def positions_scored_df
    by (simp add: scored_df_def vars_to_keep_def)
  then show ?thesis
    by (simp add: potential_members_by_need_def sort_values_descending_def
        positions_vars_to_keep cell_key_def head_frame_def head_def top2_df_def)
qed

theorem potential_members_by_need_top_witness:
  "distinct (columns scored_df) \<and> set vars_to_keep \<subseteq> set (columns scored_df)
   \<and> list_all (\<lambda>r. is_Num (r ! hd (positions (columns scored_df) ''need_score'')))
         (records scored_df)
   \<and> (\<exists>out. potential_members_by_need 2 scored_df = Inr out
         \<and> columns out = vars_to_keep
         \<and> set (columns out) \<inter> set working_columns = {}
         \<and> map need_score (records out) = [2, 1 / 2]
         \<and> length (records out) \<le> 2)"
proof -
  have p: "positions (columns scored_df) ''need_score'' = [6]"
    by (simp add: positions_def scored_df_def upt_rec)
  have h: "distinct (columns scored_df)" "set vars_to_keep \<subseteq> set (columns scored_df)"
    "list_all (\<lambda>r. is_Num (r ! hd (positions (columns scored_df) ''need_score'')))
       (records scored_df)"
    unfolding p by (simp_all add: scored_df_def vars_to_keep_def)
  from potential_members_by_need_top [OF h, of 2]
  obtain out where run: "potential_members_by_need 2 scored_df = Inr out"
    and cols: "columns out = vars_to_keep"
    and dropped: "set (columns out) \<inter> set working_columns = {}"
    and len: "length (records out) \<le> 2"
    by blast
  from run have "out = top2_df"
    by (simp add: potential_members_by_need_example)
  then have "map need_score (records out) = [2, 1 / 2]"
    by (simp add: top2_df_def need_score_def)
  with run cols dropped len
  have "\<exists>out. potential_members_by_need 2 scored_df = Inr out
         \<and> columns out = vars_to_keep
         \<and> set (columns out) \<inter> set working_columns = {}
         \<and> map need_score (records out) = [2, 1 / 2]
         \<and> length (records out) \<le> 2"
    by (intro exI [of _ out]) simp
  with h show ?thesis
    by (intro conjI)
qed

text \<open>The table returned is not one of identifier and score only: it carries the name, the
  city and the state of each institution as well.\<close>

theorem potential_members_by_need_descriptive_columns:
  "potential_members_by_need 2 scored_df = Inr top2_df
   \<and> ''Institution Name'' \<in> set (columns top2_df)
   \<and> ''Institution Name'' \<notin> set identifier_and_score
   \<and> \<not> set (columns top2_df) \<subseteq> set identifier_and_score"
  by (simp add: potential_members_by_need_example top2_df_def vars_to_keep_def
      identifier_and_score_def)

section \<open>Approach 1: the standardization\<close>

text \<open>
  C9. When the values of a listed feature have the population standard deviation \<open>0\<close>
  over the non-customer pool, the standardization fails with \<open>DegenerateInputError\<close>: no
  division by zero takes place and no score is produced.
\<close>

theorem zero_deviation_fails:
  assumes "(raw, scaled) \<in> set dict" and "map_of tbl raw = Some xs" and "pstdev xs = 0"
    and "list_all (\<lambda>(r, s). r \<in> dom (map_of tbl)) dict"
  shows "compute_need_scores nrows tbl dict flipped = Inl DegenerateInputError"
proof -
  have "standardize tbl dict flipped = Inl DegenerateInputError"
    using assms(1,4)
  proof (induction dict)
    case Nil
    then show ?case by simp
  next
    case (Cons entry dict)
    obtain r s where entry: "entry = (r, s)"
      by (cases entry)
    from Cons.prems(2) obtain ys where ys: "map_of tbl r = Some ys"
      by (auto simp: entry)
    show ?case
    proof (cases "pstdev ys = 0")
      case True
      then show ?thesis
        by (simp add: entry ys zscore_def)
    next
      case False
      then have "(r, s) \<noteq> (raw, scaled)"
        using ys assms(2,3) by auto
      then have "(raw, scaled) \<in> set dict"
        using Cons.prems(1) by (auto simp: entry)
      then have "standardize tbl dict flipped = Inl DegenerateInputError"
        using Cons.IH Cons.prems(2) by simp
      then show ?thesis
        using False by (simp add: entry ys zscore_def)
    qed
  qed
  then show ?thesis
    by (simp add: compute_need_scores_def)
qed

lemma pstdev_flat: "pstdev [2, 2, 2] = 0"
  by (simp add: pstdev_def mean_def)

theorem zero_deviation_fails_witness:
  "(''diversity_gender'', ''scaled_diversity_gender'') \<in> set two_features
   \<and> map_of flat_features ''diversity_gender'' = Some [2, 2, 2]
   \<and> pstdev [2, 2, 2] = 0
   \<and> list_all (\<lambda>(r, s). r \<in> dom (map_of flat_features)) two_features
   \<and> compute_need_scores 3 flat_features two_features vars_flipped = Inl DegenerateInputError"
proof -
  have h: "(''diversity_gender'', ''scaled_diversity_gender'') \<in> set two_features"
    "map_of flat_features ''diversity_gender'' = Some [2, 2, 2]"
    "pstdev [2, 2, 2] = 0"
    "list_all (\<lambda>(r, s). r \<in> dom (map_of flat_features)) two_features"
    by (simp_all add: two_features_def standardized_dict_def flat_features_def pstdev_flat)
  from zero_deviation_fails [OF h, of 3 vars_flipped] h show ?thesis
    by (intro conjI)
qed

lemma pstdev_eq_0_iff:
  assumes "xs \<noteq> []"
  shows "pstdev xs = 0 \<longleftrightarrow> (\<forall>x \<in> set xs. x = mean xs)"
proof -
  have nonneg: "0 \<le> (\<Sum>x\<leftarrow>ys. (x - m)\<^sup>2)" for ys :: "real list" and m
    by (induction ys) simp_all
  have zero: "(\<Sum>x\<leftarrow>ys. (x - m)\<^sup>2) = 0 \<longleftrightarrow> (\<forall>x \<in> set ys. x = m)" for ys :: "real list" and m
  proof (induction ys)
    case Nil
    show ?case by simp
  next
    case (Cons y ys)
    have "(y - m)\<^sup>2 + (\<Sum>x\<leftarrow>ys. (x - m)\<^sup>2) = 0
        \<longleftrightarrow> (y - m)\<^sup>2 = 0 \<and> (\<Sum>x\<leftarrow>ys. (x - m)\<^sup>2) = 0"
      by (rule add_nonneg_eq_0_iff) (simp_all add: nonneg)
    then show ?case
      using Cons.IH by auto
  qed
  have "0 < real (length xs)"
    using assms by simp
  then show ?thesis
    by (simp add: pstdev_def zero)
qed

lemma compute_need_scores_example:
  "compute_need_scores 2 [(''a'', [1, 3]), (''b'', [4, 0])]
     [(''a'', ''scaled_a''), (''b'', ''scaled_b'')] [''scaled_b''] = Inr [- 2, 2]"
proof -
  have a: "zscore [1, 3] = Inr [- 1, 1]"
    by (simp add: zscore_def pstdev_def mean_def)
  have "sqrt 4 = 2"
    by (rule real_sqrt_unique) simp_all
  then have b: "zscore [4, 0] = Inr [1, - 1]"
    by (simp add: zscore_def pstdev_def mean_def)
  show ?thesis
    by (simp add: compute_need_scores_def a b numeral_2_eq_2)
qed

section \<open>Approach 3 in double precision: properties\<close>

subsection \<open>Scaling\<close>





lemma zero_norm_scaled:
  "scale_each_feature64 flat_customer one_prospect
     = Inr (\<lparr>width64 = 2, body64 = [\<lparr>UnitID64 = 1, feats64 = [Fin 1, NaN]\<rparr>]\<rparr>,
            \<lparr>width64 = 2, body64 = [\<lparr>UnitID64 = 3, feats64 = [Fin (1/2), PInf]\<rparr>]\<rparr>)"
  by code_simp



subsection \<open>The shortcut and the direct sum\<close>







subsection \<open>Matching\<close>

lemma d_less_irrefl: "\<not> d_less a a"
  by (cases a) simp_all

lemma d_less_trans: "d_less a b \<Longrightarrow> d_less b c \<Longrightarrow> d_less a c"
  by (cases a; cases b; cases c) simp_all

lemma d_less_total: "a \<noteq> NaN \<Longrightarrow> b \<noteq> NaN \<Longrightarrow> a \<noteq> b \<Longrightarrow> d_less a b \<or> d_less b a"
  by (cases a; cases b) auto

lemma d_eq_iff: "a \<noteq> NaN \<Longrightarrow> b \<noteq> NaN \<Longrightarrow> d_eq a b \<longleftrightarrow> a = b"
  by (cases a; cases b) simp_all

lemma fold_d_minimum:
  assumes "NaN \<notin> set (x # xs)"
  shows "fold (\<lambda>b a. d_minimum a b) xs x \<in> set (x # xs)
     \<and> (\<forall>y \<in> set (x # xs). \<not> d_less y (fold (\<lambda>b a. d_minimum a b) xs x))"
  using assms
proof (induction xs arbitrary: x rule: rev_induct)
  case Nil
  show ?case by (simp add: d_less_irrefl)
next
  case (snoc z xs)
  let ?lo = "fold (\<lambda>b a. d_minimum a b) xs x"
  from snoc.prems have "NaN \<notin> set (x # xs)" and z: "z \<noteq> NaN"
    by auto
  from snoc.IH [OF this(1)] have mem: "?lo \<in> set (x # xs)"
    and low: "\<forall>y \<in> set (x # xs). \<not> d_less y ?lo"
    by blast+
  from mem \<open>NaN \<notin> set (x # xs)\<close> have lo: "?lo \<noteq> NaN"
    by metis
  have step: "fold (\<lambda>b a. d_minimum a b) (xs @ [z]) x = (if d_less z ?lo then z else ?lo)"
    using lo z by (simp add: d_minimum_def)
  show ?case
  proof (cases "d_less z ?lo")
    case True
    have "\<not> d_less y z" if "y \<in> set (x # xs)" for y
      using low that True d_less_trans by blast
    then show ?thesis
      unfolding step using True by (auto simp: d_less_irrefl)
  next
    case False
    then show ?thesis
      unfolding step using mem low by auto
  qed
qed

lemma match_column64_first_minimum:
  assumes "M \<noteq> []" and "NaN \<notin> set (column64 M j)"
  shows "\<exists>i lo. match_column64 M j = Inr (i, lo) \<and> i < length M \<and> column64 M j ! i = lo
           \<and> (\<forall>y \<in> set (column64 M j). \<not> d_less y lo)
           \<and> (\<forall>k < i. d_less lo (column64 M j ! k))"
proof -
  let ?vec = "column64 M j"
  from assms(1) obtain x xs where vec: "?vec = x # xs"
    by (cases ?vec) (auto simp: column64_def)
  let ?lo = "fold (\<lambda>b a. d_minimum a b) xs x"
  have min: "np_min64 ?vec = Inr ?lo"
    by (simp add: np_min64_def vec)
  from fold_d_minimum [of x xs] assms(2) have mem: "?lo \<in> set ?vec"
    and low: "\<forall>y \<in> set ?vec. \<not> d_less y ?lo"
    by (simp_all add: vec)
  from mem assms(2) have lo: "?lo \<noteq> NaN"
    by metis
  have eq: "d_eq (?vec ! k) ?lo \<longleftrightarrow> ?vec ! k = ?lo" if "k < length ?vec" for k
  proof -
    have "?vec ! k \<in> set ?vec" using that by simp
    with assms(2) have "?vec ! k \<noteq> NaN" by metis
    then show ?thesis using lo by (rule d_eq_iff)
  qed
  from mem obtain i0 where i0: "i0 < length ?vec" "?vec ! i0 = ?lo"
    by (auto simp: in_set_conv_nth)
  have "d_eq (?vec ! i0) ?lo"
    unfolding eq [OF i0(1)] by (rule i0(2))
  with i0(1) have "i0 \<in> set (argwhere_eq64 ?vec ?lo)"
    by (simp add: argwhere_eq64_def)
  then obtain i rest where arg: "argwhere_eq64 ?vec ?lo = i # rest"
    by (cases "argwhere_eq64 ?vec ?lo") auto
  note F = filter_upt_first [OF arg [unfolded argwhere_eq64_def]]
  have first: "d_less ?lo (?vec ! k)" if "k < i" for k
  proof -
    have k: "k < length ?vec" using that F(1) by simp
    then have "?vec ! k \<in> set ?vec" by simp
    with assms(2) low have "?vec ! k \<noteq> NaN" "\<not> d_less (?vec ! k) ?lo"
      by metis+
    moreover have "?vec ! k \<noteq> ?lo"
      using F(3) that eq [OF k] by simp
    ultimately show ?thesis
      using d_less_total [of "?vec ! k" ?lo] lo by blast
  qed
  have run: "match_column64 M j = Inr (i, ?lo)"
    by (simp add: match_column64_def Let_def min arg)
  have i: "i < length M"
    using F(1) by (simp add: column64_def)
  have at: "?vec ! i = ?lo"
    using F(2) eq [OF F(1)] by simp
  have before: "\<forall>k < i. d_less ?lo (?vec ! k)"
    using first by simp
  from run i at low before show ?thesis
    by (intro exI [of _ i] exI [of _ ?lo] conjI)
qed

lemma match_column64_nan:
  assumes "NaN \<in> set (column64 M j)"
  shows "match_column64 M j = Inl IndexError"
proof -
  from assms obtain x xs where vec: "column64 M j = x # xs"
    by (cases "column64 M j") auto
  have absorb: "fold (\<lambda>b a. d_minimum a b) ys NaN = NaN" for ys
    by (induction ys) (simp_all add: d_minimum_def)
  have "NaN \<in> set (y # ys) \<Longrightarrow> fold (\<lambda>b a. d_minimum a b) ys y = NaN" for y ys
  proof (induction ys arbitrary: y)
    case Nil
    then show ?case by simp
  next
    case (Cons z ys)
    show ?case
    proof (cases "y = NaN \<or> z = NaN")
      case True
      then have "d_minimum y z = NaN"
        by (auto simp: d_minimum_def)
      then show ?thesis by (simp add: absorb)
    next
      case False
      with Cons.prems have "NaN \<in> set (d_minimum y z # ys)"
        by auto
      from Cons.IH [OF this] show ?thesis by simp
    qed
  qed
  with assms have lo: "np_min64 (column64 M j) = Inr NaN"
    by (simp add: np_min64_def vec)
  have "\<not> d_eq a NaN" for a
    by (cases a) simp_all
  then have none: "argwhere_eq64 (column64 M j) NaN = []"
    by (simp add: argwhere_eq64_def filter_empty_conv)
  show ?thesis
    by (simp add: match_column64_def Let_def lo none)
qed

lemma match_loop64_first_minimum:
  assumes "M \<noteq> []" and "\<forall>j \<in> set js. NaN \<notin> set (column64 M j)"
  shows "\<exists>ix ds. match_loop64 M js (a, b) = Inr (a @ ix, b @ ds)
           \<and> length ix = length js \<and> length ds = length js
           \<and> (\<forall>t < length js. first_minimum64 (column64 M (js ! t)) (ix ! t) (ds ! t))"
  using assms(2)
proof (induction js arbitrary: a b)
  case Nil
  show ?case by simp
next
  case (Cons j js)
  from Cons.prems have "NaN \<notin> set (column64 M j)"
    by simp
  from match_column64_first_minimum [OF assms(1) this]
  obtain i lo where col: "match_column64 M j = Inr (i, lo)"
    and fm: "first_minimum64 (column64 M j) i lo"
    by (auto simp: first_minimum64_def column64_def)
  from Cons.prems have "\<forall>j \<in> set js. NaN \<notin> set (column64 M j)"
    by simp
  from Cons.IH [OF this, of "a @ [i]" "b @ [lo]"]
  obtain ix ds where rest: "match_loop64 M js (a @ [i], b @ [lo]) = Inr ((a @ [i]) @ ix, (b @ [lo]) @ ds)"
    and len: "length ix = length js" "length ds = length js"
    and all: "\<forall>t < length js. first_minimum64 (column64 M (js ! t)) (ix ! t) (ds ! t)"
    by blast
  have "match_loop64 M (j # js) (a, b) = Inr (a @ (i # ix), b @ (lo # ds))"
    by (simp add: col rest)
  moreover have "\<forall>t < length (j # js).
      first_minimum64 (column64 M ((j # js) ! t)) ((i # ix) ! t) ((lo # ds) ! t)"
    using fm all by (auto simp: nth_Cons split: nat.splits)
  ultimately show ?case
    using len by (intro exI [of _ "i # ix"] exI [of _ "lo # ds"]) simp
qed

lemma matching64_first_minimum:
  assumes "M \<noteq> []" and "\<forall>j < m. NaN \<notin> set (column64 M j)"
  shows "\<exists>ix ds. matching64 m M = Inr (ix, ds) \<and> length ix = m \<and> length ds = m
           \<and> (\<forall>j < m. first_minimum64 (column64 M j) (ix ! j) (ds ! j))"
  using match_loop64_first_minimum [OF assms(1), of "[0..<m]" "[]" "[]"] assms(2)
  by (auto simp: matching64_def)

lemma match_loop64_nan:
  assumes "M \<noteq> []" and "j \<in> set js" and "NaN \<in> set (column64 M j)"
  shows "match_loop64 M js acc = Inl IndexError"
  using assms(2)
proof (induction js arbitrary: acc)
  case Nil
  then show ?case by simp
next
  case (Cons j' js)
  obtain a b where acc: "acc = (a, b)"
    by (cases acc)
  show ?case
  proof (cases "NaN \<in> set (column64 M j')")
    case True
    then show ?thesis
      by (simp add: acc match_column64_nan)
  next
    case False
    from match_column64_first_minimum [OF assms(1) False]
    obtain i lo where col: "match_column64 M j' = Inr (i, lo)"
      by blast
    from False assms(3) Cons.prems have "j \<in> set js"
      by auto
    from Cons.IH [OF this] show ?thesis
      by (simp add: acc col)
  qed
qed

lemma matching64_nan:
  assumes "M \<noteq> []" and "j < m" and "NaN \<in> set (column64 M j)"
  shows "matching64 m M = Inl IndexError"
  unfolding matching64_def using assms by (intro match_loop64_nan [of M j]) simp_all

text \<open>
  C2. For a customer table that is not empty, the matching step records for every
  column \<open>j\<close> of the distance matrix the minimum of the column and the smallest row index
  that attains it, so that every non-customer row receives exactly one customer
  identifier. The lemma \<open>matching64_first_minimum\<close> above is what holds of this: it is so
  when the matrix holds no \<^verbatim>\<open>nan\<close>. A customer column of zeros has the norm \<open>0\<close>, the
  scaling leaves \<^verbatim>\<open>nan\<close> in every customer row, the distance matrix is \<^verbatim>\<open>nan\<close> throughout,
  and the loop raises \<^verbatim>\<open>IndexError\<close> where a match is expected.
\<close>

theorem scale_and_match64_zero_column_raises:
  "scale_each_feature64 flat_customer one_prospect
     = Inr (\<lparr>width64 = 2, body64 = [\<lparr>UnitID64 = 1, feats64 = [Fin 1, NaN]\<rparr>]\<rparr>,
            \<lparr>width64 = 2, body64 = [\<lparr>UnitID64 = 3, feats64 = [Fin (1/2), PInf]\<rparr>]\<rparr>)
   \<and> distance_matrix64 [[Fin 1, NaN]] [[Fin (1/2), PInf]] = [[NaN]]
   \<and> scale_and_match64 flat_customer one_prospect = Inl IndexError"
proof -
  have M: "distance_matrix64 [[Fin 1, NaN]] [[Fin (1/2), PInf]] = [[NaN]]"
    by code_simp
  have "matching64 1 [[NaN]] = Inl IndexError"
    by (rule matching64_nan [of _ 0]) (simp_all add: column64_def)
  then have "scale_and_match64 flat_customer one_prospect = Inl IndexError"
    by (simp add: scale_and_match64_def zero_norm_scaled np_array64_def M)
  with zero_norm_scaled M show ?thesis
    by (intro conjI)
qed

end
